theory Spec2Isabelle
  imports Main "HOL-Library.Word" "HOL-Library.Multiset"
begin

section \<open>XrActionContext.h: action sets, action contexts, attach and sync\<close>

text \<open>
  A shallow embedding of \<^verbatim>\<open>src/shared/XrUtility/XrActionContext.h\<close>. Objects are
  records, member functions take the object and return the updated object, and every
  command sent to the OpenXR runtime is appended to a log, so that "which calls were
  issued, with which arguments, in which order" is a property of the returned log.
\<close>

subsection \<open>OpenXR atoms, handles and structures\<close>

text \<open>
  \<^verbatim>\<open>XrPath\<close> is a 64-bit atom and the handles are 64-bit opaque values;
  \<^verbatim>\<open>XrResult\<close> and \<^verbatim>\<open>XrActionType\<close> are 32-bit enumerations. The \<^verbatim>\<open>type\<close>
  and \<^verbatim>\<open>next\<close> members of the OpenXR structures are constants in this file and are left
  out. A pointer member is modelled by the contents of the vector it points to, the count
  member next to it by the 32-bit value that the source's \<^verbatim>\<open>static_cast<uint32_t>\<close>
  produces. \<^verbatim>\<open>strcpy_s\<close> is modelled as copying the name: the model covers the calls
  whose names fit the fixed-size members. For a longer name the C runtime's
  invalid-parameter handler runs, at a point where the call has changed no member of its
  object and has issued no command (lines 31 to 32 and 47 to 48).
\<close>

type_synonym uint32_t = "32 word"
type_synonym XrPath = "64 word"
type_synonym XrInstance = "64 word"
type_synonym XrSession = "64 word"
type_synonym XrActionSet = "64 word"
type_synonym XrAction = "64 word"
type_synonym XrResult = "32 word"
type_synonym XrActionType = "32 word"

definition XR_NULL_PATH :: XrPath where
  "XR_NULL_PATH = 0"

record XrActionSetCreateInfo =
  actionSetName :: string
  localizedActionSetName :: string
  priority :: uint32_t

record XrActionCreateInfo =
  actionName :: string
  actionType :: XrActionType
  countSubactionPaths :: uint32_t
  subactionPaths :: "XrPath list"
  localizedActionName :: string

record XrActionSuggestedBinding =
  action :: XrAction
  binding :: XrPath

record XrInteractionProfileSuggestedBinding =
  interactionProfile :: XrPath
  countSuggestedBindings :: uint32_t
  suggestedBindings :: "XrActionSuggestedBinding list"

record XrSessionActionSetsAttachInfo =
  countActionSets :: uint32_t
  actionSets :: "XrActionSet list"

record XrActiveActionSet =
  actionSet :: XrActionSet
  subactionPath :: XrPath

record XrActionsSyncInfo =
  countActiveActionSets :: uint32_t
  activeActionSets :: "XrActiveActionSet list"

subsection \<open>The runtime and checked commands\<close>

text \<open>
  The five runtime commands this file issues. The runtime is any function from the
  commands issued so far and the next command to that command's outcome.
  \<^verbatim>\<open>CHECK_XRCMD\<close> is a macro declared outside this file; the model takes the checked
  command as a whole: \<open>Inl r\<close> when the macro throws for the result \<open>r\<close>, \<open>Inr h\<close> when
  execution continues (\<open>h\<close> is the handle written through \<^verbatim>\<open>Put()\<close> by the two create
  commands and is ignored for the others).
\<close>

datatype call =
    xrCreateActionSet XrInstance XrActionSetCreateInfo
  | xrCreateAction XrActionSet XrActionCreateInfo
  | xrSuggestInteractionProfileBindings XrInstance XrInteractionProfileSuggestedBinding
  | xrAttachSessionActionSets XrSession XrSessionActionSetsAttachInfo
  | xrSyncActions XrSession XrActionsSyncInfo

type_synonym runtime = "call list \<Rightarrow> call \<Rightarrow> XrResult + 64 word"

definition CHECK_XRCMD :: "runtime \<Rightarrow> call list \<Rightarrow> call \<Rightarrow> call list \<times> (XrResult + 64 word)" where
  "CHECK_XRCMD rt log c = (log @ [c], rt log c)"

text \<open>
  \<^verbatim>\<open>xr::StringToPath\<close> and \<^verbatim>\<open>xr::StringsToPaths\<close> are declared in \<^verbatim>\<open>XrString.h\<close>,
  outside this file. Every function below that calls one of them takes it as a parameter:
  \<open>Inl r\<close> when the resolution throws, \<open>Inr\<close> the path or paths otherwise.
\<close>

type_synonym StringToPath_t = "XrInstance \<Rightarrow> string \<Rightarrow> XrResult + XrPath"
type_synonym StringsToPaths_t = "XrInstance \<Rightarrow> string list \<Rightarrow> XrResult + XrPath list"

subsection \<open>Containers\<close>

text \<open>
  \<^verbatim>\<open>std::set<XrPath>\<close> is the list of its elements in iteration order, which is
  ascending in \<^verbatim>\<open>std::less<uint64_t>\<close>. \<open>set_insert\<close> is \<^verbatim>\<open>insert\<close>: it compares with
  \<open><\<close> only and leaves the set alone when an equivalent element is present.
\<close>

fun set_insert :: "XrPath list \<Rightarrow> XrPath \<Rightarrow> XrPath list" where
  "set_insert [] x = [x]"
| "set_insert (y # ys) x =
     (if y < x then y # set_insert ys x
      else if x < y then x # y # ys
      else y # ys)"

text \<open>
  \<^verbatim>\<open>std::unordered_map<K, std::vector<V>>\<close> is the list of its entries in the order in
  which their keys were first inserted. \<open>emplace_back_at m k v\<close> is
  \<^verbatim>\<open>m[k].emplace_back(v)\<close>: \<^verbatim>\<open>operator[]\<close> finds the entry of \<open>k\<close> or inserts an empty
  one. The iteration order of an unordered map is implementation-defined: \<open>iteration\<close>
  visits the entries in the order of a rank on the keys that is a parameter of the model
  (entries of equal rank in insertion order). The rank may depend on the keys the map
  holds and on the order of their insertion, so for a map with one entry per key every
  order that is a function of the map's history is the order of some \<open>bucket\<close>, and a
  theorem that holds for every \<open>bucket\<close> does not depend on the order.
\<close>

fun emplace_back_at :: "('k \<times> 'v list) list \<Rightarrow> 'k \<Rightarrow> 'v \<Rightarrow> ('k \<times> 'v list) list" where
  "emplace_back_at [] k v = [(k, [v])]"
| "emplace_back_at ((k', vs) # m) k v =
     (if k' = k then (k', vs @ [v]) # m else (k', vs) # emplace_back_at m k v)"

definition iteration ::
  "('k list \<Rightarrow> 'k \<Rightarrow> nat) \<Rightarrow> ('k \<times> 'v) list \<Rightarrow> ('k \<times> 'v) list" where
  "iteration bucket m = sort_key (\<lambda>e. bucket (map fst m) (fst e)) m"

text \<open>
  The position of a key in a list of keys: the rank that makes \<open>iteration\<close> visit the
  entries in a given order (lemma \<open>iteration_any_order\<close>).
\<close>

definition position :: "'k list \<Rightarrow> 'k \<Rightarrow> nat" where
  "position ks k = length (takeWhile (\<lambda>k'. k' \<noteq> k) ks)"

text \<open>The vector stored under a key; the empty vector when the key has no entry.\<close>

definition bindings_for :: "('k \<times> 'v list) list \<Rightarrow> 'k \<Rightarrow> 'v list" where
  "bindings_for m k = (case map_of m k of None \<Rightarrow> [] | Some vs \<Rightarrow> vs)"

subsection \<open>class ActionSet\<close>

record ActionSet =
  m_instance :: XrInstance
  m_actionSet :: XrActionSet
  m_actions :: "XrAction list"
  m_active :: bool
  m_declaredSubactionPaths :: "XrPath list"

text \<open>The constructor: a failed \<^verbatim>\<open>xrCreateActionSet\<close> throws and no object exists.\<close>

definition ActionSet_ctor ::
  "runtime \<Rightarrow> call list \<Rightarrow> XrInstance \<Rightarrow> string \<Rightarrow> string \<Rightarrow> uint32_t
     \<Rightarrow> call list \<times> (XrResult + ActionSet)" where
  "ActionSet_ctor rt log inst name localizedName prio =
     (let actionSetCreateInfo =
            \<lparr>actionSetName = name, localizedActionSetName = localizedName, priority = prio\<rparr>
      in case CHECK_XRCMD rt log (xrCreateActionSet inst actionSetCreateInfo) of
           (log', Inl e) \<Rightarrow> (log', Inl e)
         | (log', Inr h) \<Rightarrow>
             (log', Inr \<lparr>m_instance = inst, m_actionSet = h, m_actions = [],
                         m_active = True, m_declaredSubactionPaths = []\<rparr>))"

text \<open>
  \<^verbatim>\<open>CreateAction\<close>, in the order of the source: resolve the sub-action paths (a throw
  leaves everything as it was), fill the create info, insert the resolved paths into
  \<^verbatim>\<open>m_declaredSubactionPaths\<close>, call \<^verbatim>\<open>xrCreateAction\<close> (a throw leaves the inserted
  paths in place), append the action, return its handle.
\<close>

definition CreateAction ::
  "StringsToPaths_t \<Rightarrow> runtime \<Rightarrow> call list \<Rightarrow> ActionSet \<Rightarrow> string \<Rightarrow> string \<Rightarrow> XrActionType
     \<Rightarrow> string list \<Rightarrow> (call list \<times> ActionSet) \<times> (XrResult + XrAction)" where
  "CreateAction StringsToPaths rt log this name localizedName atype paths =
     (case StringsToPaths (m_instance this) paths of
        Inl e \<Rightarrow> ((log, this), Inl e)
      | Inr subActionXrPaths \<Rightarrow>
          (let actionCreateInfo =
                 \<lparr>actionName = name, actionType = atype,
                  countSubactionPaths = of_nat (length subActionXrPaths),
                  subactionPaths = subActionXrPaths,
                  localizedActionName = localizedName\<rparr>;
               this1 = this\<lparr>m_declaredSubactionPaths :=
                         foldl set_insert (m_declaredSubactionPaths this) subActionXrPaths\<rparr>
           in case CHECK_XRCMD rt log (xrCreateAction (m_actionSet this1) actionCreateInfo) of
                (log', Inl e) \<Rightarrow> ((log', this1), Inl e)
              | (log', Inr a) \<Rightarrow>
                  ((log', this1\<lparr>m_actions := m_actions this1 @ [a]\<rparr>), Inr a)))"

definition Active :: "ActionSet \<Rightarrow> bool" where
  "Active this = m_active this"

definition SetActive :: "ActionSet \<Rightarrow> bool \<Rightarrow> ActionSet" where
  "SetActive this active = this\<lparr>m_active := active\<rparr>"

definition Handle :: "ActionSet \<Rightarrow> XrActionSet" where
  "Handle this = m_actionSet this"

definition DeclaredSubactionPaths :: "ActionSet \<Rightarrow> XrPath list" where
  "DeclaredSubactionPaths this = m_declaredSubactionPaths this"

text \<open>
  A sequence of \<^verbatim>\<open>CreateAction\<close> calls on one action set, each with its own arguments.
  A call that throws does not end the sequence, so every sequence of calls a caller can
  make is covered, whatever the caller does with the exception.
\<close>

type_synonym CreateAction_args = "string \<times> string \<times> XrActionType \<times> string list"

fun CreateActions ::
  "StringsToPaths_t \<Rightarrow> runtime \<Rightarrow> call list \<Rightarrow> ActionSet \<Rightarrow> CreateAction_args list
     \<Rightarrow> call list \<times> ActionSet" where
  "CreateActions StringsToPaths rt log this [] = (log, this)"
| "CreateActions StringsToPaths rt log this ((name, localizedName, atype, paths) # rest) =
     (case CreateAction StringsToPaths rt log this name localizedName atype paths of
        ((log', this'), _) \<Rightarrow> CreateActions StringsToPaths rt log' this' rest)"

text \<open>The path list one call resolved: nothing when its resolution threw.\<close>

definition resolved_paths :: "StringsToPaths_t \<Rightarrow> XrInstance \<Rightarrow> CreateAction_args \<Rightarrow> XrPath list" where
  "resolved_paths StringsToPaths inst args =
     (case args of (name, localizedName, atype, paths) \<Rightarrow>
        (case StringsToPaths inst paths of Inl e \<Rightarrow> [] | Inr ps \<Rightarrow> ps))"

subsection \<open>struct ActionContext\<close>

record ActionContext =
  m_instance :: XrInstance
  m_actionSets :: "ActionSet list"
  m_actionBindings :: "(XrPath \<times> (XrAction \<times> string) list) list"

definition ActionContext_ctor :: "XrInstance \<Rightarrow> ActionContext" where
  "ActionContext_ctor inst = \<lparr>m_instance = inst, m_actionSets = [], m_actionBindings = []\<rparr>"

text \<open>
  \<^verbatim>\<open>CreateActionSet\<close> appends to the \<^verbatim>\<open>std::list\<close>; the reference it returns is
  modelled by the position of the new element.
\<close>

definition CreateActionSet ::
  "runtime \<Rightarrow> call list \<Rightarrow> ActionContext \<Rightarrow> string \<Rightarrow> string \<Rightarrow> uint32_t
     \<Rightarrow> (call list \<times> ActionContext) \<times> (XrResult + nat)" where
  "CreateActionSet rt log this name localizedName prio =
     (case ActionSet_ctor rt log (ActionContext.m_instance this) name localizedName prio of
        (log', Inl e) \<Rightarrow> ((log', this), Inl e)
      | (log', Inr s) \<Rightarrow>
          ((log', this\<lparr>m_actionSets := m_actionSets this @ [s]\<rparr>),
           Inr (length (m_actionSets this))))"

definition SuggestInteractionProfileBindings ::
  "StringToPath_t \<Rightarrow> ActionContext \<Rightarrow> string \<Rightarrow> (XrAction \<times> string) list
     \<Rightarrow> ActionContext \<times> (XrResult + unit)" where
  "SuggestInteractionProfileBindings StringToPath this profile bindings =
     (case StringToPath (ActionContext.m_instance this) profile of
        Inl e \<Rightarrow> (this, Inl e)
      | Inr profilePath \<Rightarrow>
          (this\<lparr>m_actionBindings :=
                  foldl (\<lambda>m (actionPath, suggestedBinding).
                           emplace_back_at m profilePath (actionPath, suggestedBinding))
                        (m_actionBindings this) bindings\<rparr>,
           Inr ()))"

subsection \<open>AttachActionsToSession\<close>

text \<open>
  The first loop nest (lines 124 to 132), from the inside out: the bindings of one
  profile of one context, the profiles of one context, the contexts. A resolution that
  throws ends all three loops; \<^verbatim>\<open>allBindings\<close> is a local and is gone with the throw,
  so whether \<^verbatim>\<open>operator[]\<close> had inserted the profile's entry before the throw is not
  observable and the model resolves first.
\<close>

type_synonym allBindings_t = "(XrPath \<times> XrActionSuggestedBinding list) list"

text \<open>\<^verbatim>\<open>std::string::c_str()\<close> read as a C string: the characters before the first NUL.\<close>

definition c_str :: "string \<Rightarrow> string" where
  "c_str s = takeWhile (\<lambda>c. c \<noteq> CHR 0x00) s"

fun merge_bindings ::
  "StringToPath_t \<Rightarrow> XrInstance \<Rightarrow> XrPath \<Rightarrow> allBindings_t \<Rightarrow> (XrAction \<times> string) list
     \<Rightarrow> XrResult + allBindings_t" where
  "merge_bindings StringToPath inst profilePath allBindings [] = Inr allBindings"
| "merge_bindings StringToPath inst profilePath allBindings ((actionPath, b) # rest) =
     (case StringToPath inst (c_str b) of
        Inl e \<Rightarrow> Inl e
      | Inr p \<Rightarrow>
          merge_bindings StringToPath inst profilePath
            (emplace_back_at allBindings profilePath \<lparr>action = actionPath, binding = p\<rparr>) rest)"

fun merge_profiles ::
  "StringToPath_t \<Rightarrow> XrInstance \<Rightarrow> allBindings_t \<Rightarrow> (XrPath \<times> (XrAction \<times> string) list) list
     \<Rightarrow> XrResult + allBindings_t" where
  "merge_profiles StringToPath inst allBindings [] = Inr allBindings"
| "merge_profiles StringToPath inst allBindings ((profilePath, stringBindings) # rest) =
     (case merge_bindings StringToPath inst profilePath allBindings stringBindings of
        Inl e \<Rightarrow> Inl e
      | Inr allBindings' \<Rightarrow> merge_profiles StringToPath inst allBindings' rest)"

fun merge_contexts ::
  "StringToPath_t \<Rightarrow> (XrPath list \<Rightarrow> XrPath \<Rightarrow> nat) \<Rightarrow> XrInstance \<Rightarrow> allBindings_t \<Rightarrow> ActionContext list
     \<Rightarrow> XrResult + allBindings_t" where
  "merge_contexts StringToPath bucket inst allBindings [] = Inr allBindings"
| "merge_contexts StringToPath bucket inst allBindings (actionContext # rest) =
     (case merge_profiles StringToPath inst allBindings
             (iteration bucket (m_actionBindings actionContext)) of
        Inl e \<Rightarrow> Inl e
      | Inr allBindings' \<Rightarrow> merge_contexts StringToPath bucket inst allBindings' rest)"

text \<open>The second loop (lines 134 to 140): one checked suggestion call per entry.\<close>

definition suggest_call :: "XrInstance \<Rightarrow> XrPath \<times> XrActionSuggestedBinding list \<Rightarrow> call" where
  "suggest_call inst e =
     xrSuggestInteractionProfileBindings inst
       \<lparr>interactionProfile = fst e,
        countSuggestedBindings = of_nat (length (snd e)),
        suggestedBindings = snd e\<rparr>"

fun suggest_all ::
  "runtime \<Rightarrow> call list \<Rightarrow> XrInstance \<Rightarrow> allBindings_t \<Rightarrow> call list \<times> (XrResult + unit)" where
  "suggest_all rt log inst [] = (log, Inr ())"
| "suggest_all rt log inst (e # rest) =
     (case CHECK_XRCMD rt log (suggest_call inst e) of
        (log', Inl r) \<Rightarrow> (log', Inl r)
      | (log', Inr _) \<Rightarrow> suggest_all rt log' inst rest)"

text \<open>The third part (lines 142 to 154): collect the handles, attach unless there are none.\<close>

definition collect_handles :: "ActionContext list \<Rightarrow> XrActionSet list" where
  "collect_handles actionContexts =
     foldl (\<lambda>actionSetHandles actionContext.
              foldl (\<lambda>hs s. hs @ [Handle s]) actionSetHandles (m_actionSets actionContext))
           [] actionContexts"

definition attach_call :: "XrSession \<Rightarrow> XrActionSet list \<Rightarrow> call" where
  "attach_call session actionSetHandles =
     xrAttachSessionActionSets session
       \<lparr>countActionSets = of_nat (length actionSetHandles), actionSets = actionSetHandles\<rparr>"

definition attach_sets ::
  "runtime \<Rightarrow> call list \<Rightarrow> XrSession \<Rightarrow> ActionContext list \<Rightarrow> call list \<times> (XrResult + unit)" where
  "attach_sets rt log session actionContexts =
     (let actionSetHandles = collect_handles actionContexts
      in if actionSetHandles \<noteq> [] then
           (case CHECK_XRCMD rt log (attach_call session actionSetHandles) of
              (log', Inl r) \<Rightarrow> (log', Inl r)
            | (log', Inr _) \<Rightarrow> (log', Inr ()))
         else (log, Inr ()))"

definition AttachActionsToSession ::
  "StringToPath_t \<Rightarrow> (XrPath list \<Rightarrow> XrPath \<Rightarrow> nat) \<Rightarrow> runtime \<Rightarrow> call list \<Rightarrow> XrInstance \<Rightarrow> XrSession
     \<Rightarrow> ActionContext list \<Rightarrow> call list \<times> (XrResult + unit)" where
  "AttachActionsToSession StringToPath bucket rt log inst session actionContexts =
     (case merge_contexts StringToPath bucket inst [] actionContexts of
        Inl e \<Rightarrow> (log, Inl e)
      | Inr allBindings \<Rightarrow>
          (case suggest_all rt log inst (iteration bucket allBindings) of
             (log', Inl e) \<Rightarrow> (log', Inl e)
           | (log', Inr _) \<Rightarrow> attach_sets rt log' session actionContexts))"

subsection \<open>SyncActions\<close>

text \<open>The body of the inner loop (lines 162 to 171) for one action set.\<close>

definition sync_set :: "XrActiveActionSet list \<Rightarrow> ActionSet \<Rightarrow> XrActiveActionSet list" where
  "sync_set activeSets s =
     (if \<not> Active s then activeSets
      else if DeclaredSubactionPaths s = [] then
        activeSets @ [\<lparr>actionSet = Handle s, subactionPath = XR_NULL_PATH\<rparr>]
      else
        foldl (\<lambda>acc p. acc @ [\<lparr>actionSet = Handle s, subactionPath = p\<rparr>])
              activeSets (DeclaredSubactionPaths s))"

definition collect_active :: "ActionContext list \<Rightarrow> XrActiveActionSet list" where
  "collect_active actionContexts =
     foldl (\<lambda>activeSets actionContext. foldl sync_set activeSets (m_actionSets actionContext))
           [] actionContexts"

definition sync_call :: "XrSession \<Rightarrow> XrActiveActionSet list \<Rightarrow> call" where
  "sync_call session activeSets =
     xrSyncActions session
       \<lparr>countActiveActionSets = of_nat (length activeSets), activeActionSets = activeSets\<rparr>"

definition SyncActions ::
  "runtime \<Rightarrow> call list \<Rightarrow> XrSession \<Rightarrow> ActionContext list \<Rightarrow> call list \<times> (XrResult + unit)" where
  "SyncActions rt log session actionContexts =
     (let activeSets = collect_active actionContexts
      in if activeSets \<noteq> [] then
           (case CHECK_XRCMD rt log (sync_call session activeSets) of
              (log', Inl r) \<Rightarrow> (log', Inl r)
            | (log', Inr _) \<Rightarrow> (log', Inr ()))
         else (log, Inr ()))"

text \<open>
  The binding-path strings held by a list of contexts: the strings the first loop nest of
  \<^verbatim>\<open>AttachActionsToSession\<close> resolves.
\<close>

definition binding_strings :: "ActionContext list \<Rightarrow> string set" where
  "binding_strings ctxs =
     (\<Union>c\<in>set ctxs. \<Union>e\<in>set (m_actionBindings c). snd ` set (snd e))"

subsection \<open>A concrete instance\<close>

text \<open>
  A small path table, a runtime and two contexts, used to evaluate the functions above:
  context A owns the set "Gameplay" whose action declared the two hand paths, context B
  owns the set "UI" whose action declared none; both bind under the same profile. The
  runtime rejects an action with an empty name and a suggestion for profile 9, and hands
  out handles numbered by the length of the log. Context C holds a binding string that
  is not in the path table, context D binds under profile 9 as well, and the two ranks
  visit the profiles in ascending and in descending order.
\<close>

definition sample_paths :: "(string \<times> XrPath) list" where
  "sample_paths =
     [(''/user/hand/left'', 1), (''/user/hand/right'', 2), (''/profile/simple'', 3),
      (''/left/select'', 4), (''/right/select'', 5), (''/profile/bad'', 9)]"

definition sample_StringToPath :: StringToPath_t where
  "sample_StringToPath inst s =
     (case map_of sample_paths s of None \<Rightarrow> Inl (- 1) | Some p \<Rightarrow> Inr p)"

fun sample_StringsToPaths :: StringsToPaths_t where
  "sample_StringsToPaths inst [] = Inr []"
| "sample_StringsToPaths inst (s # ss) =
     (case sample_StringToPath inst s of
        Inl e \<Rightarrow> Inl e
      | Inr p \<Rightarrow>
          (case sample_StringsToPaths inst ss of Inl e \<Rightarrow> Inl e | Inr ps \<Rightarrow> Inr (p # ps)))"

definition sample_runtime :: runtime where
  "sample_runtime log c =
     (case c of
        xrCreateActionSet i info \<Rightarrow> Inr (100 + of_nat (length log))
      | xrCreateAction s info \<Rightarrow>
          if actionName info = [] then Inl (- 1) else Inr (200 + of_nat (length log))
      | xrSuggestInteractionProfileBindings i b \<Rightarrow>
          if interactionProfile b = 9 then Inl (- 1) else Inr 0
      | xrAttachSessionActionSets s info \<Rightarrow> Inr 0
      | xrSyncActions s info \<Rightarrow> Inr 0)"

definition sample_bucket :: "XrPath list \<Rightarrow> XrPath \<Rightarrow> nat" where
  "sample_bucket ks p = unat p"

definition sample_bucket_rev :: "XrPath list \<Rightarrow> XrPath \<Rightarrow> nat" where
  "sample_bucket_rev ks p = 9 - unat p"

definition sample_fresh :: ActionSet where
  "sample_fresh =
     \<lparr>ActionSet.m_instance = 1, m_actionSet = 10, m_actions = [], m_active = True,
      m_declaredSubactionPaths = []\<rparr>"

definition sample_calls :: "CreateAction_args list" where
  "sample_calls =
     [(''jump'', ''Jump'', 1, [''/user/hand/right'', ''/user/hand/left'']),
      (''grab'', ''Grab'', 1, [''/user/hand/right'']),
      (''fly'', ''Fly'', 1, [''/nope''])]"

definition sample_gameplay :: ActionSet where
  "sample_gameplay =
     \<lparr>ActionSet.m_instance = 1, m_actionSet = 10, m_actions = [20], m_active = True,
      m_declaredSubactionPaths = [1, 2]\<rparr>"

definition sample_ui :: ActionSet where
  "sample_ui =
     \<lparr>ActionSet.m_instance = 1, m_actionSet = 11, m_actions = [21], m_active = True,
      m_declaredSubactionPaths = []\<rparr>"

definition sample_A :: ActionContext where
  "sample_A =
     \<lparr>m_instance = 1, m_actionSets = [sample_gameplay],
      m_actionBindings = [(3, [(20, ''/left/select'')])]\<rparr>"

definition sample_B :: ActionContext where
  "sample_B =
     \<lparr>m_instance = 1, m_actionSets = [sample_ui],
      m_actionBindings = [(3, [(21, ''/right/select'')])]\<rparr>"

definition sample_C :: ActionContext where
  "sample_C =
     \<lparr>m_instance = 1, m_actionSets = [],
      m_actionBindings = [(3, [(22, ''/nope'')])]\<rparr>"

definition sample_inactive :: ActionSet where
  "sample_inactive =
     \<lparr>ActionSet.m_instance = 1, m_actionSet = 12, m_actions = [22, 23], m_active = False,
      m_declaredSubactionPaths = [1, 2]\<rparr>"

definition sample_D :: ActionContext where
  "sample_D =
     \<lparr>m_instance = 1, m_actionSets = [],
      m_actionBindings = [(3, [(22, ''/left/select'')]), (9, [(23, ''/right/select'')])]\<rparr>"

section \<open>Properties\<close>

subsection \<open>The set of declared sub-action paths\<close>

lemma set_set_insert: "set (set_insert xs x) = insert x (set xs)"
  by (induction xs) auto

lemma sorted_set_insert: "sorted_wrt (<) xs \<Longrightarrow> sorted_wrt (<) (set_insert xs x)"
  by (induction xs) (auto simp: set_set_insert)

lemma set_foldl_set_insert: "set (foldl set_insert xs ps) = set xs \<union> set ps"
  by (induction ps arbitrary: xs) (auto simp: set_set_insert)

lemma sorted_foldl_set_insert:
  "sorted_wrt (<) xs \<Longrightarrow> sorted_wrt (<) (foldl set_insert xs ps)"
  by (induction ps arbitrary: xs) (auto simp: sorted_set_insert)

lemma CreateAction_declared:
  "m_declaredSubactionPaths (snd (fst (CreateAction S2P rt log s n ln t ps))) =
     foldl set_insert (m_declaredSubactionPaths s) (resolved_paths S2P (ActionSet.m_instance s) (n, ln, t, ps))"
  by (auto simp: CreateAction_def resolved_paths_def CHECK_XRCMD_def Let_def split: sum.splits)

lemma CreateAction_instance:
  "ActionSet.m_instance (snd (fst (CreateAction S2P rt log s n ln t ps))) = ActionSet.m_instance s"
  by (auto simp: CreateAction_def CHECK_XRCMD_def Let_def split: sum.splits)

lemma CreateActions_declared_set:
  "set (m_declaredSubactionPaths (snd (CreateActions S2P rt log s calls))) =
     set (m_declaredSubactionPaths s) \<union> (\<Union>a\<in>set calls. set (resolved_paths S2P (ActionSet.m_instance s) a))"
proof (induction calls arbitrary: log s)
  case Nil
  then show ?case by simp
next
  case (Cons a calls)
  obtain n ln t ps where a: "a = (n, ln, t, ps)" by (cases a) auto
  obtain log' s' r where c: "CreateAction S2P rt log s n ln t ps = ((log', s'), r)"
    by (metis prod.exhaust)
  have d: "m_declaredSubactionPaths s' = foldl set_insert (m_declaredSubactionPaths s) (resolved_paths S2P (ActionSet.m_instance s) a)"
    using CreateAction_declared [of S2P rt log s n ln t ps] c a by simp
  have i: "ActionSet.m_instance s' = ActionSet.m_instance s"
    using CreateAction_instance [of S2P rt log s n ln t ps] c by simp
  show ?case
    using Cons.IH [of log' s'] by (auto simp: a c d i set_foldl_set_insert)
qed

lemma CreateActions_declared_sorted:
  "sorted_wrt (<) (m_declaredSubactionPaths s) \<Longrightarrow>
   sorted_wrt (<) (m_declaredSubactionPaths (snd (CreateActions S2P rt log s calls)))"
proof (induction calls arbitrary: log s)
  case Nil
  then show ?case by simp
next
  case (Cons a calls)
  obtain n ln t ps where a: "a = (n, ln, t, ps)" by (cases a) auto
  obtain log' s' r where c: "CreateAction S2P rt log s n ln t ps = ((log', s'), r)"
    by (metis prod.exhaust)
  have d: "sorted_wrt (<) (m_declaredSubactionPaths s')"
    using CreateAction_declared [of S2P rt log s n ln t ps] c Cons.prems
    by (simp add: sorted_foldl_set_insert)
  show ?case
    using Cons.IH [OF d, of log'] by (simp add: a c)
qed

lemma CreateActions_append:
  "CreateActions S2P rt log s (xs @ ys) =
     (case CreateActions S2P rt log s xs of (log', s') \<Rightarrow> CreateActions S2P rt log' s' ys)"
  by (induction xs arbitrary: log s) (auto split: prod.splits)

subsection \<open>Every order of the entries is an iteration order\<close>

lemma position_append_notin:
  "k \<notin> set xs \<Longrightarrow> position (xs @ ys) k = length xs + position ys k"
  by (induction xs) (auto simp: position_def)

lemma sorted_position_suffix:
  "distinct (xs @ ys) \<Longrightarrow> sorted (map (position (xs @ ys)) ys)"
proof (induction ys arbitrary: xs)
  case Nil
  then show ?case by simp
next
  case (Cons y ys)
  from Cons.prems have d: "distinct ((xs @ [y]) @ ys)" by simp
  from Cons.IH [OF d] have s: "sorted (map (position (xs @ y # ys)) ys)" by simp
  have y: "position (xs @ y # ys) y = length xs"
    using Cons.prems by (simp add: position_append_notin) (simp add: position_def)
  have "length xs \<le> position (xs @ y # ys) z" if "z \<in> set ys" for z
  proof -
    from that Cons.prems have "z \<notin> set xs" by auto
    then show ?thesis by (simp add: position_append_notin)
  qed
  with s y show ?case by simp
qed

lemma sorted_position: "distinct ks \<Longrightarrow> sorted (map (position ks) ks)"
  using sorted_position_suffix [of "[]" ks] by simp

lemma position_inj: "k \<in> set ks \<Longrightarrow> position ks k = position ks k' \<Longrightarrow> k = k'"
proof (induction ks)
  case Nil
  then show ?case by simp
next
  case (Cons a ks)
  then show ?case by (auto simp: position_def split: if_splits)
qed

lemma filter_eq_singleton:
  "distinct xs \<Longrightarrow> x \<in> set xs \<Longrightarrow> (\<And>y. y \<in> set xs \<Longrightarrow> P y \<longleftrightarrow> y = x) \<Longrightarrow> filter P xs = [x]"
proof (induction xs)
  case Nil
  then show ?case by simp
next
  case (Cons a xs)
  show ?case
  proof (cases "a = x")
    case True
    with Cons.prems have "filter P xs = []" by (auto simp: filter_empty_conv)
    with True Cons.prems(3) [of a] show ?thesis by simp
  next
    case False
    with Cons.prems have "filter P xs = [x]" by (intro Cons.IH) auto
    with False Cons.prems(3) [of a] show ?thesis by simp
  qed
qed

lemma iteration_any_order:
  assumes d: "distinct (map fst m)" and p: "mset es = mset m"
  shows "\<exists>bucket. iteration bucket m = es"
proof -
  let ?f = "\<lambda>e. position (map fst es) (fst e)"
  have keys: "mset (map fst es) = mset (map fst m)" using p by (metis mset_map)
  have des: "distinct (map fst es)" using d keys by (metis mset_eq_imp_distinct_iff)
  have set_eq: "set es = set m" using p by (rule mset_eq_setD)
  have "sort_key ?f m = es"
  proof (rule properties_for_sort_key [OF p])
    show "sorted (map ?f es)"
      using sorted_position [OF des] by (simp add: comp_def)
    fix k assume k: "k \<in> set es"
    have eqv: "?f k = ?f y \<longleftrightarrow> y = k" if "y \<in> set es" for y
    proof
      assume "?f k = ?f y"
      then have "fst k = fst y"
        using position_inj [of "fst k" "map fst es" "fst y"] k by simp
      with des k that show "y = k" by (auto simp: distinct_map inj_on_def)
    qed simp
    have "filter (\<lambda>x. ?f k = ?f x) es = [k]"
      using des k eqv by (intro filter_eq_singleton) (auto simp: distinct_map)
    moreover have "filter (\<lambda>x. ?f k = ?f x) m = [k]"
      using d k eqv set_eq by (intro filter_eq_singleton) (auto simp: distinct_map)
    ultimately show "filter (\<lambda>x. ?f k = ?f x) es = filter (\<lambda>x. ?f k = ?f x) m" by simp
  qed
  then have "iteration (\<lambda>ks. position (map fst es)) m = es"
    by (simp add: iteration_def)
  then show ?thesis by blast
qed

subsection \<open>The merge of the pending bindings\<close>

lemma bindings_for_emplace_back_at:
  "bindings_for (emplace_back_at m k v) q =
     (if q = k then bindings_for m k @ [v] else bindings_for m q)"
  by (induction m) (auto simp: bindings_for_def)

lemma keys_emplace_back_at:
  "map fst (emplace_back_at m k v) = (if k \<in> fst ` set m then map fst m else map fst m @ [k])"
  by (induction m) (fastforce simp: image_iff)+

lemma distinct_emplace_back_at:
  "distinct (map fst m) \<Longrightarrow> distinct (map fst (emplace_back_at m k v))"
  by (simp add: keys_emplace_back_at)

lemma merge_bindings_lookup:
  "merge_bindings S2P inst p allB sb = Inr allB' \<Longrightarrow>
   map (\<lambda>x. (action x, Inr (binding x))) (bindings_for allB' q) =
   map (\<lambda>x. (action x, Inr (binding x))) (bindings_for allB q) @
     (if q = p then map (\<lambda>(a, b). (a, S2P inst (c_str b))) sb else [])"
proof (induction sb arbitrary: allB)
  case Nil
  then show ?case by simp
next
  case (Cons x sb)
  obtain a b where x: "x = (a, b)" by (cases x)
  from Cons.prems obtain pp where r: "S2P inst (c_str b) = Inr pp"
    and m: "merge_bindings S2P inst p (emplace_back_at allB p \<lparr>action = a, binding = pp\<rparr>) sb = Inr allB'"
    by (auto simp: x split: sum.splits)
  show ?case
    using Cons.IH [OF m] by (simp add: x r bindings_for_emplace_back_at)
qed

lemma merge_bindings_distinct:
  "merge_bindings S2P inst p allB sb = Inr allB' \<Longrightarrow> distinct (map fst allB) \<Longrightarrow>
   distinct (map fst allB')"
proof (induction sb arbitrary: allB)
  case Nil
  then show ?case by simp
next
  case (Cons x sb)
  obtain a b where x: "x = (a, b)" by (cases x)
  from Cons.prems obtain pp where r: "S2P inst (c_str b) = Inr pp"
    and m: "merge_bindings S2P inst p (emplace_back_at allB p \<lparr>action = a, binding = pp\<rparr>) sb = Inr allB'"
    by (auto simp: x split: sum.splits)
  show ?case
    using Cons.IH [OF m] Cons.prems(2) by (simp add: distinct_emplace_back_at)
qed

lemma merge_profiles_lookup:
  "merge_profiles S2P inst allB es = Inr allB' \<Longrightarrow>
   map (\<lambda>x. (action x, Inr (binding x))) (bindings_for allB' q) =
   map (\<lambda>x. (action x, Inr (binding x))) (bindings_for allB q) @
     map (\<lambda>(a, b). (a, S2P inst (c_str b))) (concat (map snd (filter (\<lambda>e. fst e = q) es)))"
proof (induction es arbitrary: allB)
  case Nil
  then show ?case by simp
next
  case (Cons e es)
  obtain p sb where e: "e = (p, sb)" by (cases e)
  from Cons.prems obtain allB1 where
    m1: "merge_bindings S2P inst p allB sb = Inr allB1" and
    m2: "merge_profiles S2P inst allB1 es = Inr allB'"
    by (auto simp: e split: sum.splits)
  show ?case
    using Cons.IH [OF m2] merge_bindings_lookup [OF m1, of q] by (simp add: e)
qed

lemma merge_profiles_distinct:
  "merge_profiles S2P inst allB es = Inr allB' \<Longrightarrow> distinct (map fst allB) \<Longrightarrow>
   distinct (map fst allB')"
proof (induction es arbitrary: allB)
  case Nil
  then show ?case by simp
next
  case (Cons e es)
  obtain p sb where e: "e = (p, sb)" by (cases e)
  from Cons.prems obtain allB1 where
    m1: "merge_bindings S2P inst p allB sb = Inr allB1" and
    m2: "merge_profiles S2P inst allB1 es = Inr allB'"
    by (auto simp: e split: sum.splits)
  show ?case
    using Cons.IH [OF m2] merge_bindings_distinct [OF m1] Cons.prems(2) by simp
qed

lemma filter_key_iteration:
  "filter (\<lambda>e. fst e = q) (iteration bucket m) = filter (\<lambda>e. fst e = q) m"
proof -
  have "filter (\<lambda>e. fst e = q) (filter (\<lambda>e. bucket (map fst m) (fst e) = bucket (map fst m) q) (sort_key (\<lambda>e. bucket (map fst m) (fst e)) m)) =
        filter (\<lambda>e. fst e = q) (filter (\<lambda>e. bucket (map fst m) (fst e) = bucket (map fst m) q) m)"
    by (simp only: sort_key_stable)
  moreover have "\<And>xs :: ('a \<times> 'b) list. filter (\<lambda>e. fst e = q) (filter (\<lambda>e. bucket (map fst m) (fst e) = bucket (map fst m) q) xs) = filter (\<lambda>e. fst e = q) xs"
    by (auto intro: filter_cong)
  ultimately show ?thesis by (simp only: iteration_def)
qed

lemma filter_key_distinct:
  "distinct (map fst m) \<Longrightarrow>
   concat (map snd (filter (\<lambda>e. fst e = q) m)) = bindings_for m q"
proof (induction m)
  case Nil
  then show ?case by (simp add: bindings_for_def)
next
  case (Cons e m)
  obtain k vs where e: "e = (k, vs)" by (cases e)
  from Cons.prems have nk: "k \<notin> fst ` set m" and d: "distinct (map fst m)" by (auto simp: e)
  show ?case
  proof (cases "k = q")
    case True
    with nk have "filter (\<lambda>e. fst e = q) m = []" by (auto simp: filter_empty_conv)
    with True show ?thesis by (simp add: e bindings_for_def)
  next
    case False
    with Cons.IH [OF d] show ?thesis by (simp add: e bindings_for_def)
  qed
qed

lemma merge_contexts_lookup:
  "merge_contexts S2P bucket inst allB ctxs = Inr allB' \<Longrightarrow>
   \<forall>c\<in>set ctxs. distinct (map fst (m_actionBindings c)) \<Longrightarrow>
   map (\<lambda>x. (action x, Inr (binding x))) (bindings_for allB' q) =
   map (\<lambda>x. (action x, Inr (binding x))) (bindings_for allB q) @
     map (\<lambda>(a, b). (a, S2P inst (c_str b))) (concat (map (\<lambda>c. bindings_for (m_actionBindings c) q) ctxs))"
proof (induction ctxs arbitrary: allB)
  case Nil
  then show ?case by simp
next
  case (Cons c ctxs)
  from Cons.prems(1) obtain allB1 where
    m1: "merge_profiles S2P inst allB (iteration bucket (m_actionBindings c)) = Inr allB1" and
    m2: "merge_contexts S2P bucket inst allB1 ctxs = Inr allB'"
    by (auto split: sum.splits)
  from Cons.prems(2) have d: "distinct (map fst (m_actionBindings c))"
    and ds: "\<forall>c\<in>set ctxs. distinct (map fst (m_actionBindings c))" by auto
  show ?case
    using Cons.IH [OF m2 ds] merge_profiles_lookup [OF m1, of q]
    by (simp add: filter_key_iteration filter_key_distinct [OF d])
qed

lemma merge_contexts_distinct:
  "merge_contexts S2P bucket inst allB ctxs = Inr allB' \<Longrightarrow> distinct (map fst allB) \<Longrightarrow>
   distinct (map fst allB')"
proof (induction ctxs arbitrary: allB)
  case Nil
  then show ?case by simp
next
  case (Cons c ctxs)
  from Cons.prems(1) obtain allB1 where
    m1: "merge_profiles S2P inst allB (iteration bucket (m_actionBindings c)) = Inr allB1" and
    m2: "merge_contexts S2P bucket inst allB1 ctxs = Inr allB'"
    by (auto split: sum.splits)
  show ?case
    using Cons.IH [OF m2] merge_profiles_distinct [OF m1] Cons.prems(2) by simp
qed

lemma binding_strings_Cons:
  "binding_strings (c # ctxs) = (\<Union>e\<in>set (m_actionBindings c). snd ` set (snd e)) \<union> binding_strings ctxs"
  by (simp add: binding_strings_def)

lemma merge_bindings_Inr_resolved:
  "merge_bindings S2P inst p allB sb = Inr allB' \<Longrightarrow> \<forall>x\<in>set sb. \<exists>pp. S2P inst (c_str (snd x)) = Inr pp"
proof (induction sb arbitrary: allB)
  case Nil
  then show ?case by simp
next
  case (Cons x sb)
  obtain a b where x: "x = (a, b)" by (cases x)
  from Cons.prems obtain pp where r: "S2P inst (c_str b) = Inr pp"
    and m: "merge_bindings S2P inst p (emplace_back_at allB p \<lparr>action = a, binding = pp\<rparr>) sb = Inr allB'"
    by (auto simp: x split: sum.splits)
  show ?case using Cons.IH [OF m] by (simp add: x r)
qed

lemma merge_bindings_Inl_source:
  "merge_bindings S2P inst p allB sb = Inl e \<Longrightarrow> \<exists>x\<in>set sb. S2P inst (c_str (snd x)) = Inl e"
proof (induction sb arbitrary: allB)
  case Nil
  then show ?case by simp
next
  case (Cons x sb)
  obtain a b where x: "x = (a, b)" by (cases x)
  show ?case
  proof (cases "S2P inst (c_str b)")
    case (Inl r)
    with Cons.prems show ?thesis by (simp add: x)
  next
    case (Inr pp)
    with Cons.prems have "merge_bindings S2P inst p (emplace_back_at allB p \<lparr>action = a, binding = pp\<rparr>) sb = Inl e"
      by (simp add: x)
    from Cons.IH [OF this] show ?thesis by simp
  qed
qed

lemma merge_profiles_Inr_resolved:
  "merge_profiles S2P inst allB es = Inr allB' \<Longrightarrow>
   \<forall>e\<in>set es. \<forall>x\<in>set (snd e). \<exists>pp. S2P inst (c_str (snd x)) = Inr pp"
proof (induction es arbitrary: allB)
  case Nil
  then show ?case by simp
next
  case (Cons e es)
  obtain p sb where e: "e = (p, sb)" by (cases e)
  from Cons.prems obtain allB1 where
    m1: "merge_bindings S2P inst p allB sb = Inr allB1" and
    m2: "merge_profiles S2P inst allB1 es = Inr allB'"
    by (auto simp: e split: sum.splits)
  show ?case
    using Cons.IH [OF m2] merge_bindings_Inr_resolved [OF m1] by (simp add: e)
qed

lemma merge_profiles_Inl_source:
  "merge_profiles S2P inst allB es = Inl r \<Longrightarrow>
   \<exists>e\<in>set es. \<exists>x\<in>set (snd e). S2P inst (c_str (snd x)) = Inl r"
proof (induction es arbitrary: allB)
  case Nil
  then show ?case by simp
next
  case (Cons e es)
  obtain p sb where e: "e = (p, sb)" by (cases e)
  show ?case
  proof (cases "merge_bindings S2P inst p allB sb")
    case (Inl r')
    with Cons.prems have "r' = r" by (simp add: e)
    with merge_bindings_Inl_source [OF Inl] show ?thesis by (auto simp: e)
  next
    case (Inr allB1)
    with Cons.prems have "merge_profiles S2P inst allB1 es = Inl r" by (simp add: e)
    from Cons.IH [OF this] show ?thesis by auto
  qed
qed

lemma merge_contexts_Inr_resolved:
  "merge_contexts S2P bucket inst allB ctxs = Inr allB' \<Longrightarrow>
   \<forall>b\<in>binding_strings ctxs. \<exists>pp. S2P inst (c_str b) = Inr pp"
proof (induction ctxs arbitrary: allB)
  case Nil
  then show ?case by (simp add: binding_strings_def)
next
  case (Cons c ctxs)
  from Cons.prems(1) obtain allB1 where
    m1: "merge_profiles S2P inst allB (iteration bucket (m_actionBindings c)) = Inr allB1" and
    m2: "merge_contexts S2P bucket inst allB1 ctxs = Inr allB'"
    by (auto split: sum.splits)
  have "\<forall>e\<in>set (m_actionBindings c). \<forall>x\<in>set (snd e). \<exists>pp. S2P inst (c_str (snd x)) = Inr pp"
    using merge_profiles_Inr_resolved [OF m1] by (simp add: iteration_def)
  with Cons.IH [OF m2] show ?case
    unfolding binding_strings_Cons by blast
qed

lemma merge_contexts_Inl_source:
  "merge_contexts S2P bucket inst allB ctxs = Inl r \<Longrightarrow>
   \<exists>b\<in>binding_strings ctxs. S2P inst (c_str b) = Inl r"
proof (induction ctxs arbitrary: allB)
  case Nil
  then show ?case by simp
next
  case (Cons c ctxs)
  show ?case
  proof (cases "merge_profiles S2P inst allB (iteration bucket (m_actionBindings c))")
    case (Inl r')
    with Cons.prems have "r' = r" by simp
    with merge_profiles_Inl_source [OF Inl] show ?thesis
      unfolding binding_strings_Cons by (simp add: iteration_def) blast
  next
    case (Inr allB1)
    with Cons.prems have "merge_contexts S2P bucket inst allB1 ctxs = Inl r" by simp
    from Cons.IH [OF this] show ?thesis
      unfolding binding_strings_Cons by blast
  qed
qed

subsection \<open>The suggestion, attach and sync commands\<close>

lemma suggest_all_log:
  "suggest_all rt log inst es = (log', r) \<Longrightarrow>
   \<exists>n\<le>length es. log' = log @ map (suggest_call inst) (take n es) \<and>
     (case r of
        Inr u \<Rightarrow> n = length es
      | Inl e \<Rightarrow> 0 < n \<and>
          rt (log @ map (suggest_call inst) (take (n - 1) es)) (suggest_call inst (es ! (n - 1))) = Inl e)"
proof (induction es arbitrary: log)
  case Nil
  then show ?case by auto
next
  case (Cons x es)
  show ?case
  proof (cases "rt log (suggest_call inst x)")
    case (Inl e)
    with Cons.prems have "log' = log @ [suggest_call inst x]" "r = Inl e"
      by (auto simp: CHECK_XRCMD_def)
    with Inl show ?thesis by (intro exI [of _ 1]) simp
  next
    case (Inr h)
    with Cons.prems have "suggest_all rt (log @ [suggest_call inst x]) inst es = (log', r)"
      by (simp add: CHECK_XRCMD_def)
    from Cons.IH [OF this] obtain n where n: "n \<le> length es"
      "log' = (log @ [suggest_call inst x]) @ map (suggest_call inst) (take n es)"
      "(case r of Inr u \<Rightarrow> n = length es
        | Inl e \<Rightarrow> 0 < n \<and> rt ((log @ [suggest_call inst x]) @ map (suggest_call inst) (take (n - 1) es))
                            (suggest_call inst (es ! (n - 1))) = Inl e)"
      by blast
    show ?thesis
      using n by (intro exI [of _ "Suc n"]) (cases r; cases n; simp)
  qed
qed

lemma foldl_snoc_map: "foldl (\<lambda>acc x. acc @ [f x]) acc xs = acc @ map f xs"
  by (induction xs arbitrary: acc) auto

lemma collect_handles_concat_aux:
  "foldl (\<lambda>hs c. foldl (\<lambda>hs s. hs @ [Handle s]) hs (m_actionSets c)) acc ctxs =
     acc @ concat (map (\<lambda>c. map Handle (m_actionSets c)) ctxs)"
  by (induction ctxs arbitrary: acc) (auto simp: foldl_snoc_map)

lemma collect_handles_concat:
  "collect_handles ctxs = concat (map (\<lambda>c. map Handle (m_actionSets c)) ctxs)"
  by (simp add: collect_handles_def collect_handles_concat_aux)

lemma sync_set_acc: "sync_set acc s = acc @ sync_set [] s"
  by (simp add: sync_set_def foldl_snoc_map)

lemma foldl_sync_set: "foldl sync_set acc ss = acc @ concat (map (sync_set []) ss)"
proof (induction ss arbitrary: acc)
  case Nil
  then show ?case by simp
next
  case (Cons s ss)
  have "foldl sync_set acc (s # ss) = sync_set acc s @ concat (map (sync_set []) ss)"
    using Cons.IH [of "sync_set acc s"] by simp
  also have "\<dots> = (acc @ sync_set [] s) @ concat (map (sync_set []) ss)"
    by (simp only: sync_set_acc [of acc s])
  finally show ?case by simp
qed

lemma collect_active_concat_aux:
  "foldl (\<lambda>acc c. foldl sync_set acc (m_actionSets c)) acc ctxs =
     acc @ concat (map (sync_set []) (concat (map m_actionSets ctxs)))"
proof (induction ctxs arbitrary: acc)
  case Nil
  then show ?case by simp
next
  case (Cons c ctxs)
  show ?case
    using Cons.IH [of "foldl sync_set acc (m_actionSets c)"] foldl_sync_set [of acc "m_actionSets c"]
    by simp
qed

lemma collect_active_concat:
  "collect_active ctxs = concat (map (sync_set []) (concat (map m_actionSets ctxs)))"
  by (simp add: collect_active_def collect_active_concat_aux)

lemma sync_set_cases:
  "(\<not> Active s \<longrightarrow> sync_set [] s = []) \<and>
   (Active s \<and> DeclaredSubactionPaths s = [] \<longrightarrow>
      sync_set [] s = [\<lparr>actionSet = Handle s, subactionPath = XR_NULL_PATH\<rparr>]) \<and>
   (Active s \<and> DeclaredSubactionPaths s \<noteq> [] \<longrightarrow>
      sync_set [] s = map (\<lambda>p. \<lparr>actionSet = Handle s, subactionPath = p\<rparr>) (DeclaredSubactionPaths s))"
  by (simp add: sync_set_def foldl_snoc_map)

subsection \<open>Helper facts for the claims\<close>

lemma bindings_for_foldl_emplace:
  "bindings_for (foldl (\<lambda>m. emplace_back_at m k) m bs) q =
     (if q = k then bindings_for m k @ bs else bindings_for m q)"
proof (induction bs arbitrary: m)
  case Nil
  then show ?case by simp
next
  case (Cons x bs)
  show ?case
    using Cons.IH [of "emplace_back_at m k x"]
    by (simp add: bindings_for_emplace_back_at)
qed

lemma distinct_foldl_emplace:
  "distinct (map fst m) \<Longrightarrow>
   distinct (map fst (foldl (\<lambda>m. emplace_back_at m k) m bs))"
proof (induction bs arbitrary: m)
  case Nil
  then show ?case by simp
next
  case (Cons x bs)
  show ?case
    using Cons.IH [of "emplace_back_at m k x"] Cons.prems
    by (simp add: distinct_emplace_back_at)
qed

lemma merge_contexts_total:
  assumes "\<forall>b\<in>binding_strings ctxs. \<not> isl (StringToPath inst (c_str b))"
  shows "\<exists>allBindings. merge_contexts StringToPath bucket inst allB ctxs = Inr allBindings"
proof (cases "merge_contexts StringToPath bucket inst allB ctxs")
  case (Inl r)
  from merge_contexts_Inl_source [OF Inl] assms show ?thesis by auto
next
  case (Inr allBindings)
  then show ?thesis by blast
qed

lemma distinct_keys_iteration:
  "distinct (map fst (iteration bucket m)) = distinct (map fst m)"
  by (simp add: iteration_def distinct_map)

lemma entry_bindings_for:
  "distinct (map fst m) \<Longrightarrow> e \<in> set m \<Longrightarrow> snd e = bindings_for m (fst e)"
  by (cases e) (simp add: bindings_for_def)

lemma AttachActionsToSession_merged:
  "merge_contexts StringToPath bucket inst [] ctxs = Inr allBindings \<Longrightarrow>
   AttachActionsToSession StringToPath bucket rt log inst session ctxs =
     (case suggest_all rt log inst (iteration bucket allBindings) of
        (log', Inl e) \<Rightarrow> (log', Inl e)
      | (log', Inr u) \<Rightarrow> attach_sets rt log' session ctxs)"
  by (simp add: AttachActionsToSession_def)

lemma attach_sets_unfold:
  "attach_sets rt log session ctxs =
     (if collect_handles ctxs = [] then (log, Inr ())
      else (log @ [attach_call session (collect_handles ctxs)],
            case rt log (attach_call session (collect_handles ctxs)) of
              Inl r \<Rightarrow> Inl r | Inr h \<Rightarrow> Inr ()))"
  by (simp add: attach_sets_def CHECK_XRCMD_def Let_def split: sum.splits)

lemma suggest_all_accepted:
  "(\<forall>k<length es. \<not> isl (rt (log @ map (suggest_call inst) (take k es)) (suggest_call inst (es ! k))))
   \<Longrightarrow> suggest_all rt log inst es = (log @ map (suggest_call inst) es, Inr ())"
proof (induction es arbitrary: log)
  case Nil
  then show ?case by simp
next
  case (Cons x es)
  from Cons.prems have "\<not> isl (rt (log @ map (suggest_call inst) (take 0 (x # es))) (suggest_call inst ((x # es) ! 0)))"
    by blast
  then obtain h where h: "rt log (suggest_call inst x) = Inr h"
    by (cases "rt log (suggest_call inst x)") auto
  have "\<forall>k<length es. \<not> isl (rt ((log @ [suggest_call inst x]) @ map (suggest_call inst) (take k es))
          (suggest_call inst (es ! k)))"
  proof (intro allI impI)
    fix k assume "k < length es"
    then have "Suc k < length (x # es)" by simp
    with Cons.prems have "\<not> isl (rt (log @ map (suggest_call inst) (take (Suc k) (x # es)))
        (suggest_call inst ((x # es) ! Suc k)))"
      by blast
    then show "\<not> isl (rt ((log @ [suggest_call inst x]) @ map (suggest_call inst) (take k es))
          (suggest_call inst (es ! k)))"
      by simp
  qed
  from Cons.IH [OF this] show ?case by (simp add: CHECK_XRCMD_def h)
qed

lemma suggest_all_rejected:
  "n < length es \<Longrightarrow>
   (\<forall>k<n. \<not> isl (rt (log @ map (suggest_call inst) (take k es)) (suggest_call inst (es ! k)))) \<Longrightarrow>
   rt (log @ map (suggest_call inst) (take n es)) (suggest_call inst (es ! n)) = Inl r \<Longrightarrow>
   suggest_all rt log inst es = (log @ map (suggest_call inst) (take (Suc n) es), Inl r)"
proof (induction es arbitrary: log n)
  case Nil
  then show ?case by simp
next
  case (Cons x es)
  show ?case
  proof (cases n)
    case 0
    with Cons.prems(3) have "rt log (suggest_call inst x) = Inl r" by simp
    with 0 show ?thesis by (simp add: CHECK_XRCMD_def)
  next
    case (Suc m)
    with Cons.prems(2) have "\<not> isl (rt (log @ map (suggest_call inst) (take 0 (x # es)))
        (suggest_call inst ((x # es) ! 0)))"
      by blast
    then obtain h where h: "rt log (suggest_call inst x) = Inr h"
      by (cases "rt log (suggest_call inst x)") auto
    from Cons.prems(1) Suc have m: "m < length es" by simp
    have acc: "\<forall>k<m. \<not> isl (rt ((log @ [suggest_call inst x]) @ map (suggest_call inst) (take k es))
          (suggest_call inst (es ! k)))"
    proof (intro allI impI)
      fix k assume "k < m"
      then have "Suc k < n" using Suc by simp
      with Cons.prems(2) have "\<not> isl (rt (log @ map (suggest_call inst) (take (Suc k) (x # es)))
          (suggest_call inst ((x # es) ! Suc k)))"
        by blast
      then show "\<not> isl (rt ((log @ [suggest_call inst x]) @ map (suggest_call inst) (take k es))
          (suggest_call inst (es ! k)))"
        by simp
    qed
    from Cons.prems(3) Suc
    have rej: "rt ((log @ [suggest_call inst x]) @ map (suggest_call inst) (take m es))
        (suggest_call inst (es ! m)) = Inl r"
      by simp
    from Cons.IH [OF m acc rej] show ?thesis by (simp add: CHECK_XRCMD_def h Suc)
  qed
qed

lemma set_iteration: "set (iteration bucket m) = set m"
  by (simp add: iteration_def)

lemma bindings_for_entry:
  "bindings_for m p \<noteq> [] \<Longrightarrow> (p, bindings_for m p) \<in> set m"
  by (auto simp: bindings_for_def split: option.splits dest: map_of_SomeD)

lemma attach_sets_log_grows: "set log \<subseteq> set (fst (attach_sets rt log session ctxs))"
  by (auto simp: attach_sets_unfold)

lemma AttachActionsToSession_issues_merged:
  assumes merged: "merge_contexts StringToPath bucket inst [] ctxs = Inr allBindings"
    and ne: "bindings_for allBindings p \<noteq> []"
    and acc: "\<forall>l c. \<not> isl (rt l c)"
  shows "xrSuggestInteractionProfileBindings inst
           \<lparr>interactionProfile = p,
            countSuggestedBindings = of_nat (length (bindings_for allBindings p)),
            suggestedBindings = bindings_for allBindings p\<rparr>
         \<in> set (fst (AttachActionsToSession StringToPath bucket rt log inst session ctxs))"
proof -
  let ?es = "iteration bucket allBindings"
  let ?l = "log @ map (suggest_call inst) ?es"
  from acc have s: "suggest_all rt log inst ?es = (?l, Inr ())"
    by (intro suggest_all_accepted) blast
  have a: "AttachActionsToSession StringToPath bucket rt log inst session ctxs =
      attach_sets rt ?l session ctxs"
    by (simp add: AttachActionsToSession_merged [OF merged] s)
  from bindings_for_entry [OF ne] have "(p, bindings_for allBindings p) \<in> set ?es"
    by (simp add: set_iteration)
  then have "suggest_call inst (p, bindings_for allBindings p) \<in> set ?l"
    by simp
  with attach_sets_log_grows [of ?l rt session ctxs]
  have "suggest_call inst (p, bindings_for allBindings p)
      \<in> set (fst (attach_sets rt ?l session ctxs))"
    by blast
  then show ?thesis by (simp add: a suggest_call_def)
qed

lemma AttachActionsToSession_log_shape:
  "\<exists>sugg att. fst (AttachActionsToSession StringToPath bucket rt log inst session ctxs) =
       log @ map (suggest_call inst) sugg @ att
     \<and> (att = [] \<or> (collect_handles ctxs \<noteq> [] \<and> att = [attach_call session (collect_handles ctxs)]))"
proof (cases "merge_contexts StringToPath bucket inst [] ctxs")
  case (Inl r)
  then have "fst (AttachActionsToSession StringToPath bucket rt log inst session ctxs) =
      log @ map (suggest_call inst) [] @ []"
    by (simp add: AttachActionsToSession_def)
  then show ?thesis by blast
next
  case (Inr allBindings)
  let ?es = "iteration bucket allBindings"
  obtain log1 r where s: "suggest_all rt log inst ?es = (log1, r)" by (cases "suggest_all rt log inst ?es")
  from suggest_all_log [OF s] obtain n where
    l1: "log1 = log @ map (suggest_call inst) (take n ?es)" by blast
  show ?thesis
  proof (cases r)
    case (Inl e)
    then have "fst (AttachActionsToSession StringToPath bucket rt log inst session ctxs) =
        log @ map (suggest_call inst) (take n ?es) @ []"
      by (simp add: AttachActionsToSession_merged [OF Inr] s l1)
    then show ?thesis by blast
  next
    case (Inr u)
    show ?thesis
    proof (cases "collect_handles ctxs = []")
      case True
      then have "fst (AttachActionsToSession StringToPath bucket rt log inst session ctxs) =
          log @ map (suggest_call inst) (take n ?es) @ []"
        by (simp add: AttachActionsToSession_merged [OF \<open>merge_contexts StringToPath bucket inst [] ctxs = Inr allBindings\<close>]
            s Inr l1 attach_sets_unfold)
      then show ?thesis by blast
    next
      case False
      then have "fst (AttachActionsToSession StringToPath bucket rt log inst session ctxs) =
          log @ map (suggest_call inst) (take n ?es) @ [attach_call session (collect_handles ctxs)]"
        by (simp add: AttachActionsToSession_merged [OF \<open>merge_contexts StringToPath bucket inst [] ctxs = Inr allBindings\<close>]
            s Inr l1 attach_sets_unfold)
      with False show ?thesis by blast
    qed
  qed
qed

lemma CreateActionSet_appends:
  "snd (CreateActionSet rt log c name localizedName prio) = Inr i \<Longrightarrow>
   \<exists>s. m_actionSets (snd (fst (CreateActionSet rt log c name localizedName prio))) =
          m_actionSets c @ [s]
      \<and> rt log (xrCreateActionSet (ActionContext.m_instance c)
           \<lparr>actionSetName = name, localizedActionSetName = localizedName, priority = prio\<rparr>)
          = Inr (Handle s)
      \<and> i = length (m_actionSets c)"
  by (auto simp: CreateActionSet_def ActionSet_ctor_def CHECK_XRCMD_def Handle_def Let_def
      split: sum.splits)

lemma foldl_set_insert_canonical:
  "set ps = set ps' \<Longrightarrow> foldl set_insert [] ps = foldl set_insert [] ps'"
proof (rule strict_sorted_equal)
  show "sorted_wrt (<) (foldl set_insert [] ps')" by (simp add: sorted_foldl_set_insert)
  show "sorted_wrt (<) (foldl set_insert [] ps)" by (simp add: sorted_foldl_set_insert)
  assume "set ps = set ps'"
  then show "set (foldl set_insert [] ps) = set (foldl set_insert [] ps')"
    by (simp add: set_foldl_set_insert)
qed

lemma count_exact:
  "length xs < 2 ^ 32 \<Longrightarrow> unat (of_nat (length xs) :: uint32_t) = length xs"
  by (simp add: unat_of_nat)

lemma ActionSet_ctor_fresh:
  "ActionSet_ctor rt log inst name localizedName prio = (log', Inr s) \<Longrightarrow>
   DeclaredSubactionPaths s = [] \<and> m_actions s = [] \<and> Active s \<and>
   ActionSet.m_instance s = inst"
  by (auto simp: ActionSet_ctor_def CHECK_XRCMD_def DeclaredSubactionPaths_def Active_def
      Let_def split: sum.splits)

lemma SyncActions_unfold:
  "SyncActions rt log session ctxs =
     (if collect_active ctxs = [] then (log, Inr ())
      else (log @ [sync_call session (collect_active ctxs)],
            case rt log (sync_call session (collect_active ctxs)) of
              Inl r \<Rightarrow> Inl r | Inr h \<Rightarrow> Inr ()))"
  by (simp add: SyncActions_def CHECK_XRCMD_def Let_def split: sum.splits)

subsection \<open>Claims about ActionSet and resolution failures\<close>

text \<open>
  C2. Start from an action set whose declared-path set is empty, as the constructor leaves
  it, and make any sequence of \<^verbatim>\<open>CreateAction\<close> calls on it. Afterwards
  \<^verbatim>\<open>DeclaredSubactionPaths()\<close> holds exactly the union of the path lists the calls
  resolved, each path once; any reordering of the same calls, under any runtime, ends in
  the same set in the same iteration order; and making further calls never removes a path.
\<close>

theorem CreateAction_declared_paths_union:
  assumes fresh: "DeclaredSubactionPaths s = []"
  shows "set (DeclaredSubactionPaths (snd (CreateActions StringsToPaths rt log s calls))) =
           (\<Union>a\<in>set calls. set (resolved_paths StringsToPaths (ActionSet.m_instance s) a))
         \<and> distinct (DeclaredSubactionPaths (snd (CreateActions StringsToPaths rt log s calls)))
         \<and> (mset calls' = mset calls \<longrightarrow>
              DeclaredSubactionPaths (snd (CreateActions StringsToPaths rt' log' s calls')) =
              DeclaredSubactionPaths (snd (CreateActions StringsToPaths rt log s calls)))
         \<and> set (DeclaredSubactionPaths (snd (CreateActions StringsToPaths rt log s calls)))
             \<subseteq> set (DeclaredSubactionPaths (snd (CreateActions StringsToPaths rt log s (calls @ later))))"
proof -
  let ?U = "\<lambda>cs. \<Union>a\<in>set cs. set (resolved_paths StringsToPaths (ActionSet.m_instance s) a)"
  have empty: "m_declaredSubactionPaths s = []"
    using fresh by (simp add: DeclaredSubactionPaths_def)
  have sorted0: "sorted_wrt (<) (m_declaredSubactionPaths s)"
    by (simp add: empty)
  have set_eq: "set (m_declaredSubactionPaths (snd (CreateActions StringsToPaths r l s cs))) = ?U cs"
    for r l cs
    by (simp add: CreateActions_declared_set empty)
  have srt: "sorted_wrt (<) (m_declaredSubactionPaths (snd (CreateActions StringsToPaths r l s cs)))"
    for r l cs
    by (rule CreateActions_declared_sorted [OF sorted0])
  have dist: "distinct (m_declaredSubactionPaths (snd (CreateActions StringsToPaths rt log s calls)))"
    using srt [of rt log calls] by (simp add: strict_sorted_iff)
  have perm: "m_declaredSubactionPaths (snd (CreateActions StringsToPaths rt' log' s calls')) =
              m_declaredSubactionPaths (snd (CreateActions StringsToPaths rt log s calls))"
    if "mset calls' = mset calls"
  proof (rule strict_sorted_equal [OF srt srt])
    from that have "set calls' = set calls" by (rule mset_eq_setD)
    then show "set (m_declaredSubactionPaths (snd (CreateActions StringsToPaths rt' log' s calls'))) =
               set (m_declaredSubactionPaths (snd (CreateActions StringsToPaths rt log s calls)))"
      by (simp add: set_eq)
  qed
  have mono: "?U calls \<subseteq> ?U (calls @ later)" by auto
  show ?thesis
    unfolding DeclaredSubactionPaths_def
    using dist perm mono by (simp only: set_eq) blast
qed

theorem CreateAction_declared_paths_union_witness:
  "DeclaredSubactionPaths sample_fresh = []
   \<and> mset (rev sample_calls) = mset sample_calls
   \<and> DeclaredSubactionPaths
        (snd (CreateActions sample_StringsToPaths sample_runtime [] sample_fresh sample_calls)) = [1, 2]
   \<and> DeclaredSubactionPaths
        (snd (CreateActions sample_StringsToPaths (\<lambda>l c. Inl 0) [] sample_fresh (rev sample_calls))) =
      DeclaredSubactionPaths
        (snd (CreateActions sample_StringsToPaths sample_runtime [] sample_fresh sample_calls))"
proof -
  have h: "DeclaredSubactionPaths sample_fresh = []"
    by (simp add: DeclaredSubactionPaths_def sample_fresh_def)
  have p: "mset (rev sample_calls) = mset sample_calls" by simp
  have v: "DeclaredSubactionPaths
        (snd (CreateActions sample_StringsToPaths sample_runtime [] sample_fresh sample_calls)) = [1, 2]"
    by (simp add: DeclaredSubactionPaths_def sample_calls_def sample_fresh_def CreateAction_def
        sample_StringToPath_def sample_paths_def c_str_def CHECK_XRCMD_def sample_runtime_def)
  show ?thesis
    using h p v
      CreateAction_declared_paths_union [OF h, of sample_StringsToPaths sample_runtime "[]"
        sample_calls "rev sample_calls" "\<lambda>l c. Inl 0" "[]" "[]"]
    by simp
qed

text \<open>
  C8. When the sub-action path strings of a \<^verbatim>\<open>CreateAction\<close> call resolve and the
  runtime then rejects \<^verbatim>\<open>xrCreateAction\<close>, the error is returned, the resolved paths
  are in the declared-path set all the same, and no action has been appended.
\<close>

theorem CreateAction_failure_keeps_declared_paths:
  assumes "StringsToPaths (ActionSet.m_instance s) paths = Inr ps"
    and "rt log (xrCreateAction (Handle s)
           \<lparr>actionName = name, actionType = atype, countSubactionPaths = of_nat (length ps),
            subactionPaths = ps, localizedActionName = localizedName\<rparr>) = Inl e"
  shows "\<exists>s'. CreateAction StringsToPaths rt log s name localizedName atype paths =
           ((log @ [xrCreateAction (Handle s)
                      \<lparr>actionName = name, actionType = atype,
                       countSubactionPaths = of_nat (length ps),
                       subactionPaths = ps, localizedActionName = localizedName\<rparr>], s'), Inl e)
         \<and> set (DeclaredSubactionPaths s') = set (DeclaredSubactionPaths s) \<union> set ps
         \<and> m_actions s' = m_actions s"
  using assms
  by (simp add: CreateAction_def CHECK_XRCMD_def Handle_def DeclaredSubactionPaths_def
      set_foldl_set_insert)

theorem CreateAction_failure_keeps_declared_paths_witness:
  "sample_StringsToPaths (ActionSet.m_instance sample_ui) [''/user/hand/right'', ''/user/hand/left'']
     = Inr [2, 1]
   \<and> sample_runtime [] (xrCreateAction (Handle sample_ui)
           \<lparr>actionName = [], actionType = 1, countSubactionPaths = of_nat (length [2, 1 :: XrPath]),
            subactionPaths = [2, 1], localizedActionName = ''Select''\<rparr>) = Inl (- 1)
   \<and> snd (CreateAction sample_StringsToPaths sample_runtime [] sample_ui [] ''Select'' 1
             [''/user/hand/right'', ''/user/hand/left'']) = Inl (- 1)
   \<and> DeclaredSubactionPaths (snd (fst (CreateAction sample_StringsToPaths sample_runtime []
        sample_ui [] ''Select'' 1 [''/user/hand/right'', ''/user/hand/left'']))) = [1, 2]
   \<and> m_actions (snd (fst (CreateAction sample_StringsToPaths sample_runtime []
        sample_ui [] ''Select'' 1 [''/user/hand/right'', ''/user/hand/left'']))) = [21]"
proof -
  have h1: "sample_StringsToPaths (ActionSet.m_instance sample_ui)
              [''/user/hand/right'', ''/user/hand/left''] = Inr [2, 1]"
    by (simp add: sample_StringToPath_def sample_paths_def c_str_def)
  have h2: "sample_runtime [] (xrCreateAction (Handle sample_ui)
           \<lparr>actionName = [], actionType = 1, countSubactionPaths = of_nat (length [2, 1 :: XrPath]),
            subactionPaths = [2, 1], localizedActionName = ''Select''\<rparr>) = Inl (- 1)"
    by (simp add: sample_runtime_def)
  have v: "DeclaredSubactionPaths (snd (fst (CreateAction sample_StringsToPaths sample_runtime []
        sample_ui [] ''Select'' 1 [''/user/hand/right'', ''/user/hand/left'']))) = [1, 2]"
    using h1 h2
    by (simp add: CreateAction_def CHECK_XRCMD_def Handle_def DeclaredSubactionPaths_def
        sample_ui_def)
  from CreateAction_failure_keeps_declared_paths
         [where StringsToPaths = sample_StringsToPaths and s = sample_ui and rt = sample_runtime
            and log = "[]", OF h1 h2]
  show ?thesis using h1 h2 v by (auto simp: sample_ui_def)
qed

text \<open>
  C7. A resolution that fails is returned to the caller at once and nothing has been
  changed: \<^verbatim>\<open>SuggestInteractionProfileBindings\<close> returns the context as it was when the
  profile string does not resolve; \<^verbatim>\<open>CreateAction\<close> returns the action set and the log
  as they were (no declared path, no action, no runtime command) when the sub-action paths
  do not resolve; and when some binding-path string held by the contexts does not
  resolve, \<^verbatim>\<open>AttachActionsToSession\<close> returns the error of such a string with the log
  as it was, so neither a suggestion nor an attach command has been issued.
\<close>

theorem resolution_failure_leaves_state:
  "(StringToPath (ActionContext.m_instance c) profile = Inl e \<longrightarrow>
      SuggestInteractionProfileBindings StringToPath c profile bs = (c, Inl e))
   \<and> (StringsToPaths (ActionSet.m_instance s) paths = Inl e' \<longrightarrow>
      CreateAction StringsToPaths rt log s name localizedName atype paths = ((log, s), Inl e'))
   \<and> ((\<exists>b\<in>binding_strings ctxs. isl (StringToPath inst (c_str b))) \<longrightarrow>
      (\<exists>b\<in>binding_strings ctxs. \<exists>r. StringToPath inst (c_str b) = Inl r \<and>
         AttachActionsToSession StringToPath bucket rt log inst session ctxs = (log, Inl r)))"
proof (intro conjI impI)
  assume "StringToPath (ActionContext.m_instance c) profile = Inl e"
  then show "SuggestInteractionProfileBindings StringToPath c profile bs = (c, Inl e)"
    by (simp add: SuggestInteractionProfileBindings_def)
next
  assume "StringsToPaths (ActionSet.m_instance s) paths = Inl e'"
  then show "CreateAction StringsToPaths rt log s name localizedName atype paths = ((log, s), Inl e')"
    by (simp add: CreateAction_def)
next
  assume bad: "\<exists>b\<in>binding_strings ctxs. isl (StringToPath inst (c_str b))"
  show "\<exists>b\<in>binding_strings ctxs. \<exists>r. StringToPath inst (c_str b) = Inl r \<and>
         AttachActionsToSession StringToPath bucket rt log inst session ctxs = (log, Inl r)"
  proof (cases "merge_contexts StringToPath bucket inst [] ctxs")
    case (Inl r)
    from merge_contexts_Inl_source [OF Inl] obtain b where
      "b \<in> binding_strings ctxs" "StringToPath inst (c_str b) = Inl r" by blast
    moreover have "AttachActionsToSession StringToPath bucket rt log inst session ctxs = (log, Inl r)"
      by (simp add: AttachActionsToSession_def Inl)
    ultimately show ?thesis by blast
  next
    case (Inr allB)
    from merge_contexts_Inr_resolved [OF Inr] bad show ?thesis by auto
  qed
qed

theorem resolution_failure_leaves_state_witness:
  "sample_StringToPath (ActionContext.m_instance sample_A) ''/nope'' = Inl (- 1)
   \<and> SuggestInteractionProfileBindings sample_StringToPath sample_A ''/nope'' [(20, ''/left/select'')]
       = (sample_A, Inl (- 1))
   \<and> sample_StringsToPaths (ActionSet.m_instance sample_gameplay) [''/user/hand/left'', ''/nope'']
       = Inl (- 1)
   \<and> CreateAction sample_StringsToPaths sample_runtime [] sample_gameplay ''grab'' ''Grab'' 1
         [''/user/hand/left'', ''/nope''] = (([], sample_gameplay), Inl (- 1))
   \<and> (\<exists>b\<in>binding_strings [sample_A, sample_C]. isl (sample_StringToPath 1 (c_str b)))
   \<and> AttachActionsToSession sample_StringToPath sample_bucket sample_runtime [] 1 7 [sample_A, sample_C]
       = ([], Inl (- 1))"
proof -
  have h1: "sample_StringToPath (ActionContext.m_instance sample_A) ''/nope'' = Inl (- 1)"
    by (simp add: sample_StringToPath_def sample_paths_def c_str_def)
  have h2: "sample_StringsToPaths (ActionSet.m_instance sample_gameplay)
              [''/user/hand/left'', ''/nope''] = Inl (- 1)"
    by (simp add: sample_StringToPath_def sample_paths_def c_str_def)
  have h3: "\<exists>b\<in>binding_strings [sample_A, sample_C]. isl (sample_StringToPath 1 (c_str b))"
    by (simp add: binding_strings_def sample_A_def sample_C_def sample_StringToPath_def
        sample_paths_def c_str_def)
  have r: "sample_StringToPath 1 (c_str b) = Inl r \<Longrightarrow> r = - 1" for b r
    by (simp add: sample_StringToPath_def split: option.splits)
  note T = resolution_failure_leaves_state [of sample_StringToPath sample_A "''/nope''" "- 1"
        "[(20, ''/left/select'')]" sample_StringsToPaths sample_gameplay
        "[''/user/hand/left'', ''/nope'']" "- 1" sample_runtime "[]" "''grab''" "''Grab''" 1
        "[sample_A, sample_C]" 1 sample_bucket 7]
  from T h1 have a: "SuggestInteractionProfileBindings sample_StringToPath sample_A ''/nope''
      [(20, ''/left/select'')] = (sample_A, Inl (- 1))"
    by blast
  from T h2 have b: "CreateAction sample_StringsToPaths sample_runtime [] sample_gameplay ''grab''
      ''Grab'' 1 [''/user/hand/left'', ''/nope''] = (([], sample_gameplay), Inl (- 1))"
    by blast
  from T h3 obtain x y where xy: "sample_StringToPath 1 (c_str x) = Inl y"
    "AttachActionsToSession sample_StringToPath sample_bucket sample_runtime [] 1 7 [sample_A, sample_C]
       = ([], Inl y)"
    by blast
  from r [OF xy(1)] xy(2) have c:
    "AttachActionsToSession sample_StringToPath sample_bucket sample_runtime [] 1 7 [sample_A, sample_C]
       = ([], Inl (- 1))"
    by simp
  show ?thesis using h1 h2 h3 a b c by blast
qed

subsection \<open>Claims about the pending bindings and AttachActionsToSession\<close>

text \<open>
  C3. When every binding-path string of the contexts resolves, the first loop nest of
  \<^verbatim>\<open>AttachActionsToSession\<close> succeeds and the list it builds for a profile \<open>p\<close> is,
  entry by entry and in order, the concatenation over the contexts of each context's
  accumulated (action, binding string) pairs for \<open>p\<close>, every string replaced by its path:
  nothing is dropped and equal pairs are kept (equal lists are equal multisets). This
  holds for every iteration order of the unordered maps. \<^verbatim>\<open>AttachActionsToSession\<close>
  runs its suggestion loop on this merged mapping, and when the runtime accepts every
  command the log it returns holds, for a profile with a non-empty merged list, the
  \<^verbatim>\<open>xrSuggestInteractionProfileBindings\<close> command carrying exactly that list. The
  contexts' tables have one entry per key, as \<^verbatim>\<open>std::unordered_map\<close> has, and
  \<^verbatim>\<open>SuggestInteractionProfileBindings\<close> keeps it so. A successful
  \<^verbatim>\<open>SuggestInteractionProfileBindings\<close> call appends its pairs, duplicates included, to
  the list of its profile and leaves the other profiles alone.
\<close>

theorem merged_bindings_concatenate:
  "((\<forall>c\<in>set ctxs. distinct (map fst (m_actionBindings c))) \<and>
    (\<forall>b\<in>binding_strings ctxs. \<not> isl (StringToPath inst (c_str b))) \<longrightarrow>
      (\<exists>allBindings. merge_contexts StringToPath bucket inst [] ctxs = Inr allBindings \<and>
         map (\<lambda>x. (action x, Inr (binding x))) (bindings_for allBindings p) =
         map (\<lambda>(a, b). (a, StringToPath inst (c_str b)))
           (concat (map (\<lambda>c. bindings_for (m_actionBindings c) p) ctxs)) \<and>
         AttachActionsToSession StringToPath bucket rt log inst session ctxs =
           (case suggest_all rt log inst (iteration bucket allBindings) of
              (log', Inl e) \<Rightarrow> (log', Inl e)
            | (log', Inr u) \<Rightarrow> attach_sets rt log' session ctxs) \<and>
         (bindings_for allBindings p \<noteq> [] \<and> (\<forall>l c. \<not> isl (rt l c)) \<longrightarrow>
            xrSuggestInteractionProfileBindings inst
              \<lparr>interactionProfile = p,
               countSuggestedBindings = of_nat (length (bindings_for allBindings p)),
               suggestedBindings = bindings_for allBindings p\<rparr>
            \<in> set (fst (AttachActionsToSession StringToPath bucket rt log inst session ctxs)))))
   \<and> (StringToPath (ActionContext.m_instance c) profile = Inr pp \<longrightarrow>
        snd (SuggestInteractionProfileBindings StringToPath c profile bs) = Inr ()
        \<and> bindings_for (m_actionBindings (fst (SuggestInteractionProfileBindings StringToPath c profile bs))) q =
            (if q = pp then bindings_for (m_actionBindings c) pp @ bs
             else bindings_for (m_actionBindings c) q)
        \<and> (distinct (map fst (m_actionBindings c)) \<longrightarrow>
             distinct (map fst (m_actionBindings
               (fst (SuggestInteractionProfileBindings StringToPath c profile bs))))))"
proof (intro conjI impI)
  assume a: "(\<forall>c\<in>set ctxs. distinct (map fst (m_actionBindings c))) \<and>
    (\<forall>b\<in>binding_strings ctxs. \<not> isl (StringToPath inst (c_str b)))"
  then obtain allBindings where
    m: "merge_contexts StringToPath bucket inst [] ctxs = Inr allBindings"
    using merge_contexts_total [of ctxs StringToPath inst bucket "[]"] by blast
  from a have d: "\<forall>c\<in>set ctxs. distinct (map fst (m_actionBindings c))" by blast
  have l: "map (\<lambda>x. (action x, Inr (binding x))) (bindings_for allBindings p) =
         map (\<lambda>(a, b). (a, StringToPath inst (c_str b)))
           (concat (map (\<lambda>c. bindings_for (m_actionBindings c) p) ctxs))"
    using merge_contexts_lookup [OF m d, of p] by (simp add: bindings_for_def)
  have r: "AttachActionsToSession StringToPath bucket rt log inst session ctxs =
           (case suggest_all rt log inst (iteration bucket allBindings) of
              (log', Inl e) \<Rightarrow> (log', Inl e)
            | (log', Inr u) \<Rightarrow> attach_sets rt log' session ctxs)"
    by (rule AttachActionsToSession_merged [OF m])
  have i: "xrSuggestInteractionProfileBindings inst
              \<lparr>interactionProfile = p,
               countSuggestedBindings = of_nat (length (bindings_for allBindings p)),
               suggestedBindings = bindings_for allBindings p\<rparr>
            \<in> set (fst (AttachActionsToSession StringToPath bucket rt log inst session ctxs))"
    if "bindings_for allBindings p \<noteq> [] \<and> (\<forall>l c. \<not> isl (rt l c))"
    using AttachActionsToSession_issues_merged [OF m] that by blast
  from m l r i show "\<exists>allBindings. merge_contexts StringToPath bucket inst [] ctxs = Inr allBindings \<and>
         map (\<lambda>x. (action x, Inr (binding x))) (bindings_for allBindings p) =
         map (\<lambda>(a, b). (a, StringToPath inst (c_str b)))
           (concat (map (\<lambda>c. bindings_for (m_actionBindings c) p) ctxs)) \<and>
         AttachActionsToSession StringToPath bucket rt log inst session ctxs =
           (case suggest_all rt log inst (iteration bucket allBindings) of
              (log', Inl e) \<Rightarrow> (log', Inl e)
            | (log', Inr u) \<Rightarrow> attach_sets rt log' session ctxs) \<and>
         (bindings_for allBindings p \<noteq> [] \<and> (\<forall>l c. \<not> isl (rt l c)) \<longrightarrow>
            xrSuggestInteractionProfileBindings inst
              \<lparr>interactionProfile = p,
               countSuggestedBindings = of_nat (length (bindings_for allBindings p)),
               suggestedBindings = bindings_for allBindings p\<rparr>
            \<in> set (fst (AttachActionsToSession StringToPath bucket rt log inst session ctxs)))"
    by blast
next
  assume "StringToPath (ActionContext.m_instance c) profile = Inr pp"
  then show "snd (SuggestInteractionProfileBindings StringToPath c profile bs) = Inr ()"
    by (simp add: SuggestInteractionProfileBindings_def)
next
  assume "StringToPath (ActionContext.m_instance c) profile = Inr pp"
  then show "bindings_for (m_actionBindings (fst (SuggestInteractionProfileBindings StringToPath c profile bs))) q =
            (if q = pp then bindings_for (m_actionBindings c) pp @ bs
             else bindings_for (m_actionBindings c) q)"
    by (simp add: SuggestInteractionProfileBindings_def bindings_for_foldl_emplace)
next
  assume "StringToPath (ActionContext.m_instance c) profile = Inr pp"
    and "distinct (map fst (m_actionBindings c))"
  then show "distinct (map fst (m_actionBindings
               (fst (SuggestInteractionProfileBindings StringToPath c profile bs))))"
    by (simp add: SuggestInteractionProfileBindings_def distinct_foldl_emplace)
qed

theorem merged_bindings_concatenate_witness:
  "distinct (map fst (m_actionBindings sample_A))
   \<and> distinct (map fst (m_actionBindings sample_B))
   \<and> binding_strings [sample_A, sample_B] = {''/left/select'', ''/right/select''}
   \<and> sample_StringToPath 1 (c_str ''/left/select'') = Inr 4
   \<and> sample_StringToPath 1 (c_str ''/right/select'') = Inr 5
   \<and> (\<exists>allBindings. merge_contexts sample_StringToPath sample_bucket 1 [] [sample_A, sample_B] = Inr allBindings \<and>
         map (\<lambda>x. (action x, Inr (binding x))) (bindings_for allBindings 3) =
         [(20, sample_StringToPath 1 (c_str ''/left/select'')), (21, sample_StringToPath 1 (c_str ''/right/select''))])
   \<and> xrSuggestInteractionProfileBindings 1
        \<lparr>interactionProfile = 3, countSuggestedBindings = 2,
         suggestedBindings = [\<lparr>action = 20, binding = 4\<rparr>, \<lparr>action = 21, binding = 5\<rparr>]\<rparr>
      \<in> set (fst (AttachActionsToSession sample_StringToPath sample_bucket (\<lambda>l c. Inr 0) [] 1 7
                     [sample_A, sample_B]))
   \<and> AttachActionsToSession sample_StringToPath sample_bucket sample_runtime [] 1 7
        [sample_A, sample_B] =
       ([xrSuggestInteractionProfileBindings 1
           \<lparr>interactionProfile = 3, countSuggestedBindings = 2,
            suggestedBindings = [\<lparr>action = 20, binding = 4\<rparr>, \<lparr>action = 21, binding = 5\<rparr>]\<rparr>,
         xrAttachSessionActionSets 7 \<lparr>countActionSets = 2, actionSets = [10, 11]\<rparr>], Inr ())
   \<and> sample_StringToPath (ActionContext.m_instance sample_A) ''/profile/simple'' = Inr 3
   \<and> bindings_for (m_actionBindings (fst (SuggestInteractionProfileBindings sample_StringToPath
         sample_A ''/profile/simple'' [(20, ''/left/select''), (20, ''/left/select'')]))) 3 =
       [(20, ''/left/select''), (20, ''/left/select''), (20, ''/left/select'')]"
proof -
  let ?m = "[(3 :: XrPath, [\<lparr>action = 20, binding = 4\<rparr>, \<lparr>action = 21, binding = 5\<rparr>])]"
  let ?c3 = "xrSuggestInteractionProfileBindings 1
        \<lparr>interactionProfile = 3, countSuggestedBindings = 2,
         suggestedBindings = [\<lparr>action = 20, binding = 4\<rparr>, \<lparr>action = 21, binding = 5\<rparr>]\<rparr>"
  have h1: "\<forall>c\<in>set [sample_A, sample_B]. distinct (map fst (m_actionBindings c))"
    by (simp add: sample_A_def sample_B_def)
  have h2: "\<forall>b\<in>binding_strings [sample_A, sample_B]. \<not> isl (sample_StringToPath 1 (c_str b))"
    by (simp add: binding_strings_def sample_A_def sample_B_def sample_StringToPath_def
        sample_paths_def c_str_def)
  have h3: "sample_StringToPath (ActionContext.m_instance sample_A) ''/profile/simple'' = Inr 3"
    by (simp add: sample_StringToPath_def sample_paths_def c_str_def)
  have mv: "merge_contexts sample_StringToPath sample_bucket 1 [] [sample_A, sample_B] = Inr ?m"
    by (simp add: sample_A_def sample_B_def iteration_def sample_bucket_def
        sample_StringToPath_def sample_paths_def c_str_def)
  have bv: "bindings_for ?m 3 = [\<lparr>action = 20, binding = 4\<rparr>, \<lparr>action = 21, binding = 5\<rparr>]"
    by (simp add: bindings_for_def)
  have it: "iteration sample_bucket ?m = ?m"
    by (simp add: iteration_def sample_bucket_def)
  have hs: "collect_handles [sample_A, sample_B] = [10, 11]"
    by (simp add: collect_handles_def Handle_def sample_A_def sample_B_def sample_gameplay_def
        sample_ui_def)
  have v: "bindings_for (m_actionBindings sample_A) 3 = [(20, ''/left/select'')]"
    by (simp add: bindings_for_def sample_A_def)
  have w: "map (\<lambda>(a, b). (a, sample_StringToPath 1 (c_str b)))
           (concat (map (\<lambda>c. bindings_for (m_actionBindings c) 3) [sample_A, sample_B])) =
         [(20, sample_StringToPath 1 (c_str ''/left/select'')), (21, sample_StringToPath 1 (c_str ''/right/select''))]"
    by (simp add: bindings_for_def sample_A_def sample_B_def)
  note T = merged_bindings_concatenate [where ctxs = "[sample_A, sample_B]"
      and StringToPath = sample_StringToPath and inst = 1 and bucket = sample_bucket and p = 3
      and c = sample_A and profile = "''/profile/simple''" and pp = 3
      and bs = "[(20, ''/left/select''), (20, ''/left/select'')]" and q = 3
      and log = "[]" and session = 7]
  from T [where rt = sample_runtime] h1 h2 obtain allB where
    a1: "merge_contexts sample_StringToPath sample_bucket 1 [] [sample_A, sample_B] = Inr allB"
    and a2: "map (\<lambda>x. (action x, Inr (binding x))) (bindings_for allB 3) =
         map (\<lambda>(a, b). (a, sample_StringToPath 1 (c_str b)))
           (concat (map (\<lambda>c. bindings_for (m_actionBindings c) 3) [sample_A, sample_B]))"
    and a3: "AttachActionsToSession sample_StringToPath sample_bucket sample_runtime [] 1 7
               [sample_A, sample_B] =
           (case suggest_all sample_runtime [] 1 (iteration sample_bucket allB) of
              (log', Inl e) \<Rightarrow> (log', Inl e)
            | (log', Inr u) \<Rightarrow> attach_sets sample_runtime log' 7 [sample_A, sample_B])"
    by blast
  from a1 mv have eq: "allB = ?m" by simp
  from a2 have a2': "map (\<lambda>x. (action x, Inr (binding x))) (bindings_for allB 3) =
         [(20, sample_StringToPath 1 (c_str ''/left/select'')), (21, sample_StringToPath 1 (c_str ''/right/select''))]"
    by (simp only: w)
  have a: "\<exists>allBindings.
         merge_contexts sample_StringToPath sample_bucket 1 [] [sample_A, sample_B] = Inr allBindings \<and>
         map (\<lambda>x. (action x, Inr (binding x))) (bindings_for allBindings 3) =
         [(20, sample_StringToPath 1 (c_str ''/left/select'')), (21, sample_StringToPath 1 (c_str ''/right/select''))]"
    by (rule exI [of _ allB]) (rule conjI [OF a1 a2'])
  from a3 have full: "AttachActionsToSession sample_StringToPath sample_bucket sample_runtime [] 1 7
        [sample_A, sample_B] =
       ([?c3, xrAttachSessionActionSets 7 \<lparr>countActionSets = 2, actionSets = [10, 11]\<rparr>], Inr ())"
    by (simp add: eq it CHECK_XRCMD_def suggest_call_def sample_runtime_def attach_sets_unfold
        attach_call_def hs)
  from T [where rt = "\<lambda>l c. Inr 0"] h1 h2 obtain allB' where
    b1: "merge_contexts sample_StringToPath sample_bucket 1 [] [sample_A, sample_B] = Inr allB'"
    and b2: "bindings_for allB' 3 \<noteq> [] \<and> (\<forall>l c. \<not> isl ((\<lambda>l c. Inr 0 :: XrResult + 64 word) l c)) \<longrightarrow>
            xrSuggestInteractionProfileBindings 1
              \<lparr>interactionProfile = 3,
               countSuggestedBindings = of_nat (length (bindings_for allB' 3)),
               suggestedBindings = bindings_for allB' 3\<rparr>
            \<in> set (fst (AttachActionsToSession sample_StringToPath sample_bucket (\<lambda>l c. Inr 0) [] 1 7
                           [sample_A, sample_B]))"
    by blast
  from b1 mv have eq': "allB' = ?m" by simp
  from b2 have issued: "?c3
      \<in> set (fst (AttachActionsToSession sample_StringToPath sample_bucket (\<lambda>l c. Inr 0) [] 1 7
                     [sample_A, sample_B]))"
    by (simp add: eq' bv)
  from T [where rt = sample_runtime] h3
  have "bindings_for (m_actionBindings (fst (SuggestInteractionProfileBindings
         sample_StringToPath sample_A ''/profile/simple''
         [(20, ''/left/select''), (20, ''/left/select'')]))) 3 =
       (if (3 :: XrPath) = 3 then bindings_for (m_actionBindings sample_A) 3 @
          [(20, ''/left/select''), (20, ''/left/select'')]
        else bindings_for (m_actionBindings sample_A) 3)"
    by blast
  then have b: "bindings_for (m_actionBindings (fst (SuggestInteractionProfileBindings
         sample_StringToPath sample_A ''/profile/simple''
         [(20, ''/left/select''), (20, ''/left/select'')]))) 3 =
       [(20, ''/left/select''), (20, ''/left/select''), (20, ''/left/select'')]"
    by (simp only: v append.simps simp_thms if_True)
  have g: "distinct (map fst (m_actionBindings sample_A))"
    "distinct (map fst (m_actionBindings sample_B))"
    "sample_StringToPath 1 (c_str ''/left/select'') = Inr 4"
    "sample_StringToPath 1 (c_str ''/right/select'') = Inr 5"
    by (simp_all add: sample_A_def sample_B_def sample_StringToPath_def sample_paths_def c_str_def)
  have g': "binding_strings [sample_A, sample_B] = {''/left/select'', ''/right/select''}"
    by (auto simp: binding_strings_def sample_A_def sample_B_def)
  show ?thesis using g g' h3 a issued full b by blast
qed

text \<open>
  C4. Let the first loop nest have produced the merged mapping. Its entries have distinct
  profiles, the iteration visits each of them once, and the command issued for an entry
  is \<^verbatim>\<open>xrSuggestInteractionProfileBindings\<close> with the entry's profile and all the merged
  records of that profile. When the runtime accepts the command of every entry, the log
  grows by exactly one such command per entry, in iteration order, and the function goes
  on to the attach part. When the runtime accepts the commands of the first \<open>n\<close> entries
  and rejects the next one with \<open>r\<close>, \<^verbatim>\<open>AttachActionsToSession\<close> returns \<open>r\<close> and the
  log has grown by those \<open>n + 1\<close> commands only: no command is issued for the entries
  after the rejected one, and no attach command is issued. Conversely an error returned
  by the suggestion loop is the runtime's answer to the last command in the log.
\<close>

theorem suggestion_calls_one_per_profile:
  assumes merged: "merge_contexts StringToPath bucket inst [] ctxs = Inr allBindings"
  shows
    "let es = iteration bucket allBindings;
         cmd = (\<lambda>e. xrSuggestInteractionProfileBindings inst
                  \<lparr>interactionProfile = fst e,
                   countSuggestedBindings = of_nat (length (bindings_for allBindings (fst e))),
                   suggestedBindings = bindings_for allBindings (fst e)\<rparr>)
     in distinct (map fst es)
      \<and> mset es = mset allBindings
      \<and> (\<forall>e\<in>set es. snd e = bindings_for allBindings (fst e))
      \<and> map (suggest_call inst) es = map cmd es
      \<and> ((\<forall>k<length es. \<not> isl (rt (log @ map cmd (take k es)) (cmd (es ! k)))) \<longrightarrow>
            suggest_all rt log inst es = (log @ map cmd es, Inr ())
            \<and> AttachActionsToSession StringToPath bucket rt log inst session ctxs =
                attach_sets rt (log @ map cmd es) session ctxs)
      \<and> (n < length es
          \<and> (\<forall>k<n. \<not> isl (rt (log @ map cmd (take k es)) (cmd (es ! k))))
          \<and> rt (log @ map cmd (take n es)) (cmd (es ! n)) = Inl r \<longrightarrow>
            suggest_all rt log inst es = (log @ map cmd (take (Suc n) es), Inl r)
            \<and> AttachActionsToSession StringToPath bucket rt log inst session ctxs =
                (log @ map cmd (take (Suc n) es), Inl r))
      \<and> (suggest_all rt log inst es = (log1, Inr u) \<longrightarrow>
            log1 = log @ map cmd es
            \<and> AttachActionsToSession StringToPath bucket rt log inst session ctxs =
                attach_sets rt log1 session ctxs)
      \<and> (suggest_all rt log inst es = (log1, Inl r') \<longrightarrow>
            AttachActionsToSession StringToPath bucket rt log inst session ctxs = (log1, Inl r')
            \<and> (\<exists>m<length es.
                  log1 = log @ map cmd (take (Suc m) es)
                  \<and> rt (log @ map cmd (take m es)) (cmd (es ! m)) = Inl r'))"
proof -
  let ?es = "iteration bucket allBindings"
  let ?cmd = "\<lambda>e. xrSuggestInteractionProfileBindings inst
                  \<lparr>interactionProfile = fst e,
                   countSuggestedBindings = of_nat (length (bindings_for allBindings (fst e))),
                   suggestedBindings = bindings_for allBindings (fst e)\<rparr>"
  have d: "distinct (map fst allBindings)"
    using merge_contexts_distinct [OF merged] by simp
  have c1: "distinct (map fst ?es)"
    using d by (simp add: distinct_keys_iteration)
  have c2: "mset ?es = mset allBindings"
    by (simp add: iteration_def)
  have c3: "snd e = bindings_for allBindings (fst e)" if "e \<in> set ?es" for e
    using that entry_bindings_for [OF d, of e] by (simp add: iteration_def)
  have pin: "suggest_call inst e = ?cmd e" if "e \<in> set ?es" for e
    using c3 [OF that] by (simp add: suggest_call_def)
  have pin_take: "map (suggest_call inst) (take k ?es) = map ?cmd (take k ?es)" for k
    by (rule map_cong [OF refl]) (auto dest: in_set_takeD intro: pin)
  have pin_all: "map (suggest_call inst) ?es = map ?cmd ?es"
    by (rule map_cong [OF refl]) (rule pin)
  have pin_nth: "suggest_call inst (?es ! k) = ?cmd (?es ! k)" if "k < length ?es" for k
    using that by (intro pin) simp
  have acc: "suggest_all rt log inst ?es = (log @ map ?cmd ?es, Inr ())"
    if a: "\<forall>k<length ?es. \<not> isl (rt (log @ map ?cmd (take k ?es)) (?cmd (?es ! k)))"
  proof -
    have "\<forall>k<length ?es. \<not> isl (rt (log @ map (suggest_call inst) (take k ?es))
            (suggest_call inst (?es ! k)))"
      using a by (simp only: pin_take) (simp add: pin_nth)
    from suggest_all_accepted [OF this] show ?thesis by (simp only: pin_all)
  qed
  have rej: "suggest_all rt log inst ?es = (log @ map ?cmd (take (Suc n) ?es), Inl r)"
    if n: "n < length ?es"
      and a: "\<forall>k<n. \<not> isl (rt (log @ map ?cmd (take k ?es)) (?cmd (?es ! k)))"
      and b: "rt (log @ map ?cmd (take n ?es)) (?cmd (?es ! n)) = Inl r"
  proof -
    have a': "\<forall>k<n. \<not> isl (rt (log @ map (suggest_call inst) (take k ?es))
            (suggest_call inst (?es ! k)))"
    proof (intro allI impI)
      fix k assume k: "k < n"
      with n have "k < length ?es" by simp
      with a k show "\<not> isl (rt (log @ map (suggest_call inst) (take k ?es))
            (suggest_call inst (?es ! k)))"
        by (simp only: pin_take) (simp add: pin_nth)
    qed
    have b': "rt (log @ map (suggest_call inst) (take n ?es)) (suggest_call inst (?es ! n)) = Inl r"
      using b n by (simp only: pin_take) (simp add: pin_nth)
    from suggest_all_rejected [OF n a' b'] show ?thesis by (simp only: pin_take)
  qed
  have att_ok: "AttachActionsToSession StringToPath bucket rt log inst session ctxs =
      attach_sets rt l session ctxs" if "suggest_all rt log inst ?es = (l, Inr v)" for l v
    by (simp add: AttachActionsToSession_merged [OF merged] that)
  have att_fail: "AttachActionsToSession StringToPath bucket rt log inst session ctxs = (l, Inl e)"
    if "suggest_all rt log inst ?es = (l, Inl e)" for l e
    by (simp add: AttachActionsToSession_merged [OF merged] that)
  have old_ok: "log1 = log @ map ?cmd ?es" if s: "suggest_all rt log inst ?es = (log1, Inr u)"
    using suggest_all_log [OF s] by (auto simp only: pin_all [symmetric] sum.case take_all order_refl)
  have old_fail: "\<exists>m<length ?es. log1 = log @ map ?cmd (take (Suc m) ?es)
        \<and> rt (log @ map ?cmd (take m ?es)) (?cmd (?es ! m)) = Inl r'"
    if s: "suggest_all rt log inst ?es = (log1, Inl r')"
  proof -
    from suggest_all_log [OF s] obtain j where j: "j \<le> length ?es" "0 < j"
      "log1 = log @ map (suggest_call inst) (take j ?es)"
      "rt (log @ map (suggest_call inst) (take (j - 1) ?es)) (suggest_call inst (?es ! (j - 1))) = Inl r'"
      by auto
    then obtain m where m: "j = Suc m" by (cases j) auto
    with j have ml: "m < length ?es" by simp
    from j(3,4) have "log1 = log @ map ?cmd (take (Suc m) ?es)"
      "rt (log @ map ?cmd (take m ?es)) (?cmd (?es ! m)) = Inl r'"
      unfolding m using pin_nth [OF ml] by (simp_all only: pin_take diff_Suc_1)
    with ml show ?thesis by blast
  qed
  show ?thesis
    unfolding Let_def
    using c1 c2 c3 pin_all acc rej att_ok att_fail old_ok old_fail
    by (intro conjI impI ballI) (blast | metis)+
qed


theorem suggestion_calls_one_per_profile_witness:
  "merge_contexts sample_StringToPath sample_bucket 1 [] [sample_A, sample_D] =
     Inr [(3, [\<lparr>action = 20, binding = 4\<rparr>, \<lparr>action = 22, binding = 4\<rparr>]),
          (9, [\<lparr>action = 23, binding = 5\<rparr>])]
   \<and> sample_runtime []
        (xrSuggestInteractionProfileBindings 1
           \<lparr>interactionProfile = 3, countSuggestedBindings = 2,
            suggestedBindings = [\<lparr>action = 20, binding = 4\<rparr>, \<lparr>action = 22, binding = 4\<rparr>]\<rparr>) = Inr 0
   \<and> sample_runtime
        [xrSuggestInteractionProfileBindings 1
           \<lparr>interactionProfile = 3, countSuggestedBindings = 2,
            suggestedBindings = [\<lparr>action = 20, binding = 4\<rparr>, \<lparr>action = 22, binding = 4\<rparr>]\<rparr>]
        (xrSuggestInteractionProfileBindings 1
           \<lparr>interactionProfile = 9, countSuggestedBindings = 1,
            suggestedBindings = [\<lparr>action = 23, binding = 5\<rparr>]\<rparr>) = Inl (- 1)
   \<and> AttachActionsToSession sample_StringToPath sample_bucket sample_runtime [] 1 7
        [sample_A, sample_D] =
       ([xrSuggestInteractionProfileBindings 1
           \<lparr>interactionProfile = 3, countSuggestedBindings = 2,
            suggestedBindings = [\<lparr>action = 20, binding = 4\<rparr>, \<lparr>action = 22, binding = 4\<rparr>]\<rparr>,
         xrSuggestInteractionProfileBindings 1
           \<lparr>interactionProfile = 9, countSuggestedBindings = 1,
            suggestedBindings = [\<lparr>action = 23, binding = 5\<rparr>]\<rparr>], Inl (- 1))
   \<and> AttachActionsToSession sample_StringToPath sample_bucket_rev sample_runtime [] 1 7
        [sample_A, sample_D] =
       ([xrSuggestInteractionProfileBindings 1
           \<lparr>interactionProfile = 9, countSuggestedBindings = 1,
            suggestedBindings = [\<lparr>action = 23, binding = 5\<rparr>]\<rparr>], Inl (- 1))
   \<and> merge_contexts sample_StringToPath sample_bucket 1 [] [sample_A, sample_B] =
       Inr [(3, [\<lparr>action = 20, binding = 4\<rparr>, \<lparr>action = 21, binding = 5\<rparr>])]
   \<and> AttachActionsToSession sample_StringToPath sample_bucket sample_runtime [] 1 7
        [sample_A, sample_B] =
       ([xrSuggestInteractionProfileBindings 1
           \<lparr>interactionProfile = 3, countSuggestedBindings = 2,
            suggestedBindings = [\<lparr>action = 20, binding = 4\<rparr>, \<lparr>action = 21, binding = 5\<rparr>]\<rparr>,
         xrAttachSessionActionSets 7 \<lparr>countActionSets = 2, actionSets = [10, 11]\<rparr>], Inr ())"
proof -
  let ?m1 = "[(3 :: XrPath, [\<lparr>action = 20, binding = 4\<rparr>, \<lparr>action = 22, binding = 4\<rparr>]),
          (9, [\<lparr>action = 23, binding = 5\<rparr>])]"
  let ?m2 = "[(3 :: XrPath, [\<lparr>action = 20, binding = 4\<rparr>, \<lparr>action = 21, binding = 5\<rparr>])]"
  let ?c3 = "xrSuggestInteractionProfileBindings 1
           \<lparr>interactionProfile = 3, countSuggestedBindings = 2,
            suggestedBindings = [\<lparr>action = 20, binding = 4\<rparr>, \<lparr>action = 22, binding = 4\<rparr>]\<rparr>"
  let ?c9 = "xrSuggestInteractionProfileBindings 1
           \<lparr>interactionProfile = 9, countSuggestedBindings = 1,
            suggestedBindings = [\<lparr>action = 23, binding = 5\<rparr>]\<rparr>"
  have h1: "merge_contexts sample_StringToPath sample_bucket 1 [] [sample_A, sample_D] = Inr ?m1"
    by (simp add: sample_A_def sample_D_def iteration_def sample_bucket_def
        sample_StringToPath_def sample_paths_def c_str_def)
  have h1r: "merge_contexts sample_StringToPath sample_bucket_rev 1 [] [sample_A, sample_D] = Inr ?m1"
    by (simp add: sample_A_def sample_D_def iteration_def sample_bucket_rev_def
        sample_StringToPath_def sample_paths_def c_str_def)
  have h2: "merge_contexts sample_StringToPath sample_bucket 1 [] [sample_A, sample_B] = Inr ?m2"
    by (simp add: sample_A_def sample_B_def iteration_def sample_bucket_def
        sample_StringToPath_def sample_paths_def c_str_def)
  have it1: "iteration sample_bucket ?m1 = ?m1"
    by (simp add: iteration_def sample_bucket_def)
  have it1r: "iteration sample_bucket_rev ?m1 = rev ?m1"
    by (simp add: iteration_def sample_bucket_rev_def)
  have it2: "iteration sample_bucket ?m2 = ?m2"
    by (simp add: iteration_def sample_bucket_def)
  have r3: "sample_runtime [] ?c3 = Inr 0" by (simp add: sample_runtime_def)
  have r9: "sample_runtime [?c3] ?c9 = Inl (- 1)" by (simp add: sample_runtime_def)
  have a: "AttachActionsToSession sample_StringToPath sample_bucket sample_runtime [] 1 7
        [sample_A, sample_D] = ([?c3, ?c9], Inl (- 1))"
    using suggestion_calls_one_per_profile [OF h1, unfolded Let_def it1, where rt = sample_runtime
        and log = "[]" and n = 1 and r = "- 1" and session = 7]
    by (simp add: bindings_for_def sample_runtime_def)
  have b: "AttachActionsToSession sample_StringToPath sample_bucket_rev sample_runtime [] 1 7
        [sample_A, sample_D] = ([?c9], Inl (- 1))"
    using suggestion_calls_one_per_profile [OF h1r, unfolded Let_def it1r, where rt = sample_runtime
        and log = "[]" and n = 0 and r = "- 1" and session = 7]
    by (simp add: bindings_for_def sample_runtime_def)
  have hs: "collect_handles [sample_A, sample_B] = [10, 11]"
    by (simp add: collect_handles_def Handle_def sample_A_def sample_B_def sample_gameplay_def
        sample_ui_def)
  have c: "AttachActionsToSession sample_StringToPath sample_bucket sample_runtime [] 1 7
        [sample_A, sample_B] =
       ([xrSuggestInteractionProfileBindings 1
           \<lparr>interactionProfile = 3, countSuggestedBindings = 2,
            suggestedBindings = [\<lparr>action = 20, binding = 4\<rparr>, \<lparr>action = 21, binding = 5\<rparr>]\<rparr>,
         xrAttachSessionActionSets 7 \<lparr>countActionSets = 2, actionSets = [10, 11]\<rparr>], Inr ())"
    using suggestion_calls_one_per_profile [OF h2, unfolded Let_def it2, where rt = sample_runtime
        and log = "[]" and session = 7]
    by (simp add: bindings_for_def sample_runtime_def attach_sets_unfold attach_call_def hs)
  show ?thesis using h1 r3 r9 a b h2 c by blast
qed

text \<open>
  C5. The handles collected for the attach command are those of every action set of
  every context, in context order and within a context in the order of
  \<^verbatim>\<open>m_actionSets\<close>, to which \<^verbatim>\<open>CreateActionSet\<close> appends, so in creation order. When
  the sequence is not empty, the attach part issues exactly one
  \<^verbatim>\<open>xrAttachSessionActionSets\<close> command with the full sequence (and its length as a
  \<^verbatim>\<open>uint32_t\<close>); when it is empty it issues none. \<^verbatim>\<open>AttachActionsToSession\<close> runs
  the attach part after the suggestions succeeded, and whatever happens the commands it
  adds to the log are suggestion commands followed by at most one attach command, which
  is there only when the sequence is not empty.
\<close>

theorem attach_call_once_with_all_handles:
  "collect_handles ctxs = concat (map (\<lambda>c. map Handle (m_actionSets c)) ctxs)
   \<and> (collect_handles ctxs \<noteq> [] \<longrightarrow>
        attach_sets rt log1 session ctxs =
          (log1 @ [xrAttachSessionActionSets session
                     \<lparr>countActionSets = of_nat (length (collect_handles ctxs)),
                      actionSets = collect_handles ctxs\<rparr>],
           case rt log1 (xrAttachSessionActionSets session
                     \<lparr>countActionSets = of_nat (length (collect_handles ctxs)),
                      actionSets = collect_handles ctxs\<rparr>) of
             Inl r \<Rightarrow> Inl r | Inr h \<Rightarrow> Inr ()))
   \<and> (collect_handles ctxs = [] \<longrightarrow> attach_sets rt log1 session ctxs = (log1, Inr ()))
   \<and> (merge_contexts StringToPath bucket inst [] ctxs = Inr allBindings \<and>
       suggest_all rt log inst (iteration bucket allBindings) = (log1, Inr u) \<longrightarrow>
        AttachActionsToSession StringToPath bucket rt log inst session ctxs =
          attach_sets rt log1 session ctxs)
   \<and> (\<exists>sugg att. fst (AttachActionsToSession StringToPath bucket rt log inst session ctxs) =
          log @ map (suggest_call inst) sugg @ att
        \<and> (att = [] \<or>
            (collect_handles ctxs \<noteq> [] \<and> att = [attach_call session (collect_handles ctxs)])))
   \<and> (snd (CreateActionSet rt log c name localizedName prio) = Inr i \<longrightarrow>
        (\<exists>s. m_actionSets (snd (fst (CreateActionSet rt log c name localizedName prio))) =
                m_actionSets c @ [s]
            \<and> rt log (xrCreateActionSet (ActionContext.m_instance c)
                 \<lparr>actionSetName = name, localizedActionSetName = localizedName, priority = prio\<rparr>)
                = Inr (Handle s)
            \<and> i = length (m_actionSets c)))"
proof (intro conjI impI)
  show "collect_handles ctxs = concat (map (\<lambda>c. map Handle (m_actionSets c)) ctxs)"
    by (rule collect_handles_concat)
  show "\<exists>sugg att. fst (AttachActionsToSession StringToPath bucket rt log inst session ctxs) =
          log @ map (suggest_call inst) sugg @ att
        \<and> (att = [] \<or>
            (collect_handles ctxs \<noteq> [] \<and> att = [attach_call session (collect_handles ctxs)]))"
    by (rule AttachActionsToSession_log_shape)
next
  assume "collect_handles ctxs \<noteq> []"
  then show "attach_sets rt log1 session ctxs =
          (log1 @ [xrAttachSessionActionSets session
                     \<lparr>countActionSets = of_nat (length (collect_handles ctxs)),
                      actionSets = collect_handles ctxs\<rparr>],
           case rt log1 (xrAttachSessionActionSets session
                     \<lparr>countActionSets = of_nat (length (collect_handles ctxs)),
                      actionSets = collect_handles ctxs\<rparr>) of
             Inl r \<Rightarrow> Inl r | Inr h \<Rightarrow> Inr ())"
    by (simp add: attach_sets_unfold attach_call_def)
next
  assume "collect_handles ctxs = []"
  then show "attach_sets rt log1 session ctxs = (log1, Inr ())"
    by (simp add: attach_sets_unfold)
next
  assume "merge_contexts StringToPath bucket inst [] ctxs = Inr allBindings \<and>
       suggest_all rt log inst (iteration bucket allBindings) = (log1, Inr u)"
  then show "AttachActionsToSession StringToPath bucket rt log inst session ctxs =
          attach_sets rt log1 session ctxs"
    by (simp add: AttachActionsToSession_merged)
next
  assume "snd (CreateActionSet rt log c name localizedName prio) = Inr i"
  then show "\<exists>s. m_actionSets (snd (fst (CreateActionSet rt log c name localizedName prio))) =
                m_actionSets c @ [s]
            \<and> rt log (xrCreateActionSet (ActionContext.m_instance c)
                 \<lparr>actionSetName = name, localizedActionSetName = localizedName, priority = prio\<rparr>)
                = Inr (Handle s)
            \<and> i = length (m_actionSets c)"
    by (rule CreateActionSet_appends)
qed

theorem attach_call_once_with_all_handles_witness:
  "collect_handles [sample_A, sample_B] = [10, 11]
   \<and> merge_contexts sample_StringToPath sample_bucket 1 [] [sample_A, sample_B] =
       Inr [(3, [\<lparr>action = 20, binding = 4\<rparr>, \<lparr>action = 21, binding = 5\<rparr>])]
   \<and> AttachActionsToSession sample_StringToPath sample_bucket sample_runtime [] 1 7 [sample_A, sample_B] =
       ([xrSuggestInteractionProfileBindings 1
           \<lparr>interactionProfile = 3, countSuggestedBindings = 2,
            suggestedBindings = [\<lparr>action = 20, binding = 4\<rparr>, \<lparr>action = 21, binding = 5\<rparr>]\<rparr>,
         xrAttachSessionActionSets 7 \<lparr>countActionSets = 2, actionSets = [10, 11]\<rparr>], Inr ())
   \<and> collect_handles [ActionContext_ctor 1] = []
   \<and> AttachActionsToSession sample_StringToPath sample_bucket sample_runtime [] 1 7 [ActionContext_ctor 1] =
       ([], Inr ())
   \<and> snd (CreateActionSet sample_runtime [] sample_A ''ui'' ''UI'' 1) = Inr 1
   \<and> map Handle (m_actionSets (snd (fst (CreateActionSet sample_runtime [] sample_A ''ui'' ''UI'' 1))))
       = [10, 100]"
proof -
  let ?m = "[(3 :: XrPath, [\<lparr>action = 20, binding = 4\<rparr>, \<lparr>action = 21, binding = 5\<rparr>])]"
  let ?l1 = "[xrSuggestInteractionProfileBindings 1
           \<lparr>interactionProfile = 3, countSuggestedBindings = 2,
            suggestedBindings = [\<lparr>action = 20, binding = 4\<rparr>, \<lparr>action = 21, binding = 5\<rparr>]\<rparr>]"
  have v: "collect_handles [sample_A, sample_B] = [10, 11]"
    by (simp add: collect_handles_def Handle_def sample_A_def sample_B_def sample_gameplay_def
        sample_ui_def)
  have ne: "collect_handles [sample_A, sample_B] \<noteq> []" by (simp add: v)
  have h1: "merge_contexts sample_StringToPath sample_bucket 1 [] [sample_A, sample_B] = Inr ?m"
    by (simp add: sample_A_def sample_B_def iteration_def sample_bucket_def sample_bucket_rev_def sample_StringToPath_def sample_paths_def c_str_def)
  have h2: "suggest_all sample_runtime [] 1 (iteration sample_bucket ?m) = (?l1, Inr ())"
    by (simp add: iteration_def sample_bucket_def sample_bucket_rev_def CHECK_XRCMD_def suggest_call_def sample_runtime_def)
  note T = attach_call_once_with_all_handles [where ctxs = "[sample_A, sample_B]"
      and rt = sample_runtime and ?log1.0 = ?l1 and session = 7
      and StringToPath = sample_StringToPath and bucket = sample_bucket and inst = 1
      and allBindings = ?m and log = "[]" and u = "()" and c = sample_A and name = "''ui''"
      and localizedName = "''UI''" and prio = 1 and i = 1]
  from T h1 h2 have "AttachActionsToSession sample_StringToPath sample_bucket sample_runtime [] 1 7
      [sample_A, sample_B] = attach_sets sample_runtime ?l1 7 [sample_A, sample_B]"
    by blast
  moreover from T ne have "attach_sets sample_runtime ?l1 7 [sample_A, sample_B] =
          (?l1 @ [xrAttachSessionActionSets 7
                     \<lparr>countActionSets = of_nat (length (collect_handles [sample_A, sample_B])),
                      actionSets = collect_handles [sample_A, sample_B]\<rparr>],
           case sample_runtime ?l1 (xrAttachSessionActionSets 7
                     \<lparr>countActionSets = of_nat (length (collect_handles [sample_A, sample_B])),
                      actionSets = collect_handles [sample_A, sample_B]\<rparr>) of
             Inl r \<Rightarrow> Inl r | Inr h \<Rightarrow> Inr ())"
    by blast
  ultimately have a: "AttachActionsToSession sample_StringToPath sample_bucket sample_runtime [] 1 7
      [sample_A, sample_B] =
       ([xrSuggestInteractionProfileBindings 1
           \<lparr>interactionProfile = 3, countSuggestedBindings = 2,
            suggestedBindings = [\<lparr>action = 20, binding = 4\<rparr>, \<lparr>action = 21, binding = 5\<rparr>]\<rparr>,
         xrAttachSessionActionSets 7 \<lparr>countActionSets = 2, actionSets = [10, 11]\<rparr>], Inr ())"
    by (simp add: v sample_runtime_def)
  have e: "collect_handles [ActionContext_ctor 1] = []"
    by (simp add: collect_handles_def ActionContext_ctor_def)
  have h3: "merge_contexts sample_StringToPath sample_bucket 1 [] [ActionContext_ctor 1] = Inr []"
    by (simp add: ActionContext_ctor_def iteration_def sample_bucket_def sample_bucket_rev_def)
  have h4: "suggest_all sample_runtime [] 1 (iteration sample_bucket []) = ([], Inr ())"
    by (simp add: iteration_def sample_bucket_def sample_bucket_rev_def)
  note T' = attach_call_once_with_all_handles [where ctxs = "[ActionContext_ctor 1]"
      and rt = sample_runtime and ?log1.0 = "[]" and session = 7
      and StringToPath = sample_StringToPath and bucket = sample_bucket and inst = 1
      and allBindings = "[]" and log = "[]" and u = "()"]
  from T' h3 h4 have "AttachActionsToSession sample_StringToPath sample_bucket sample_runtime [] 1 7
      [ActionContext_ctor 1] = attach_sets sample_runtime [] 7 [ActionContext_ctor 1]"
    by blast
  moreover from T' e have "attach_sets sample_runtime [] 7 [ActionContext_ctor 1] = ([], Inr ())"
    by blast
  ultimately have b: "AttachActionsToSession sample_StringToPath sample_bucket sample_runtime [] 1 7
      [ActionContext_ctor 1] = ([], Inr ())"
    by simp
  have c: "snd (CreateActionSet sample_runtime [] sample_A ''ui'' ''UI'' 1) = Inr 1"
    by (simp add: CreateActionSet_def ActionSet_ctor_def CHECK_XRCMD_def sample_runtime_def
        sample_A_def)
  have d: "map Handle (m_actionSets (snd (fst (CreateActionSet sample_runtime [] sample_A ''ui'' ''UI'' 1))))
       = [10, 100]"
    by (simp add: CreateActionSet_def ActionSet_ctor_def CHECK_XRCMD_def sample_runtime_def
        sample_A_def sample_gameplay_def Handle_def)
  show ?thesis using v h1 a e b c d by blast
qed

subsection \<open>Claims about SyncActions\<close>

text \<open>
  C1. The vector \<^verbatim>\<open>activeActionSets\<close> that \<^verbatim>\<open>SyncActions\<close> builds is the concatenation,
  over the contexts in order and their action sets in order, of the records of each set,
  and the \<^verbatim>\<open>xrSyncActions\<close> command that \<^verbatim>\<open>SyncActions\<close> issues carries exactly this
  concatenation (no command when it is empty). The records of a set are: none when the
  set is not active, whatever it declared; the one record pairing its handle with
  \<^verbatim>\<open>XR_NULL_PATH\<close> when it is active and declared no sub-action path; one record per
  declared sub-action path, each paired with its handle, when it is active and declared
  \<open>N > 0\<close> paths, so exactly \<open>N\<close> records.
\<close>

theorem SyncActions_records_per_set:
  "collect_active ctxs = concat (map (sync_set []) (concat (map m_actionSets ctxs)))
   \<and> fst (SyncActions rt log session ctxs) =
        log @ (if concat (map (sync_set []) (concat (map m_actionSets ctxs))) = [] then []
               else [xrSyncActions session
                       \<lparr>countActiveActionSets =
                          of_nat (length (concat (map (sync_set []) (concat (map m_actionSets ctxs))))),
                        activeActionSets =
                          concat (map (sync_set []) (concat (map m_actionSets ctxs)))\<rparr>])
   \<and> (\<not> Active s \<longrightarrow> sync_set [] s = [])
   \<and> (Active s \<and> DeclaredSubactionPaths s = [] \<longrightarrow>
        sync_set [] s = [\<lparr>actionSet = Handle s, subactionPath = XR_NULL_PATH\<rparr>])
   \<and> (Active s \<and> DeclaredSubactionPaths s \<noteq> [] \<longrightarrow>
        sync_set [] s =
          map (\<lambda>p. \<lparr>actionSet = Handle s, subactionPath = p\<rparr>) (DeclaredSubactionPaths s)
        \<and> length (sync_set [] s) = length (DeclaredSubactionPaths s))"
proof -
  have "fst (SyncActions rt log session ctxs) =
        log @ (if collect_active ctxs = [] then []
               else [xrSyncActions session
                       \<lparr>countActiveActionSets = of_nat (length (collect_active ctxs)),
                        activeActionSets = collect_active ctxs\<rparr>])"
    by (simp add: SyncActions_unfold sync_call_def)
  then have "fst (SyncActions rt log session ctxs) =
        log @ (if concat (map (sync_set []) (concat (map m_actionSets ctxs))) = [] then []
               else [xrSyncActions session
                       \<lparr>countActiveActionSets =
                          of_nat (length (concat (map (sync_set []) (concat (map m_actionSets ctxs))))),
                        activeActionSets =
                          concat (map (sync_set []) (concat (map m_actionSets ctxs)))\<rparr>])"
    by (simp only: collect_active_concat)
  with sync_set_cases [of s] collect_active_concat [of ctxs] show ?thesis
    by (simp only: simp_thms) simp
qed

theorem SyncActions_records_per_set_witness:
  "\<not> Active sample_inactive \<and> sync_set [] sample_inactive = []
   \<and> Active sample_ui \<and> DeclaredSubactionPaths sample_ui = []
   \<and> sync_set [] sample_ui = [\<lparr>actionSet = 11, subactionPath = 0\<rparr>]
   \<and> Active sample_gameplay \<and> DeclaredSubactionPaths sample_gameplay \<noteq> []
   \<and> sync_set [] sample_gameplay =
        [\<lparr>actionSet = 10, subactionPath = 1\<rparr>, \<lparr>actionSet = 10, subactionPath = 2\<rparr>]
   \<and> collect_active [sample_A, sample_B] =
        [\<lparr>actionSet = 10, subactionPath = 1\<rparr>, \<lparr>actionSet = 10, subactionPath = 2\<rparr>,
         \<lparr>actionSet = 11, subactionPath = 0\<rparr>]
   \<and> fst (SyncActions sample_runtime [] 7 [sample_A, sample_B]) =
        [xrSyncActions 7
           \<lparr>countActiveActionSets = 3,
            activeActionSets =
              [\<lparr>actionSet = 10, subactionPath = 1\<rparr>, \<lparr>actionSet = 10, subactionPath = 2\<rparr>,
               \<lparr>actionSet = 11, subactionPath = 0\<rparr>]\<rparr>]
   \<and> fst (SyncActions sample_runtime [] 7
          [sample_A, sample_B\<lparr>m_actionSets := [SetActive sample_ui False]\<rparr>]) =
        [xrSyncActions 7
           \<lparr>countActiveActionSets = 2,
            activeActionSets =
              [\<lparr>actionSet = 10, subactionPath = 1\<rparr>, \<lparr>actionSet = 10, subactionPath = 2\<rparr>]\<rparr>]
   \<and> fst (SyncActions sample_runtime [] 7
          [sample_B\<lparr>m_actionSets := [sample_inactive]\<rparr>]) = []"
proof -
  have h1: "\<not> Active sample_inactive" by (simp add: Active_def sample_inactive_def)
  have h2: "Active sample_ui \<and> DeclaredSubactionPaths sample_ui = []"
    by (simp add: Active_def DeclaredSubactionPaths_def sample_ui_def)
  have h3: "Active sample_gameplay \<and> DeclaredSubactionPaths sample_gameplay \<noteq> []"
    by (simp add: Active_def DeclaredSubactionPaths_def sample_gameplay_def)
  have v2: "Handle sample_ui = 11" "Handle sample_gameplay = 10"
    "DeclaredSubactionPaths sample_gameplay = [1, 2]"
    by (simp_all add: Handle_def DeclaredSubactionPaths_def sample_ui_def sample_gameplay_def)
  have v: "collect_active [sample_A, sample_B] =
        [\<lparr>actionSet = 10, subactionPath = 1\<rparr>, \<lparr>actionSet = 10, subactionPath = 2\<rparr>,
         \<lparr>actionSet = 11, subactionPath = 0\<rparr>]"
    by (simp add: collect_active_def sync_set_def Active_def DeclaredSubactionPaths_def
        Handle_def XR_NULL_PATH_def sample_A_def sample_B_def sample_gameplay_def sample_ui_def)
  from SyncActions_records_per_set [of "[sample_A, sample_B]" sample_runtime "[]" 7 sample_inactive] h1
  have a: "sync_set [] sample_inactive = []" by blast
  from SyncActions_records_per_set [of "[sample_A, sample_B]" sample_runtime "[]" 7 sample_ui] h2
  have "sync_set [] sample_ui = [\<lparr>actionSet = Handle sample_ui, subactionPath = XR_NULL_PATH\<rparr>]"
    by blast
  then have b: "sync_set [] sample_ui = [\<lparr>actionSet = 11, subactionPath = 0\<rparr>]"
    by (simp add: v2 XR_NULL_PATH_def)
  from SyncActions_records_per_set [of "[sample_A, sample_B]" sample_runtime "[]" 7 sample_gameplay] h3
  have "sync_set [] sample_gameplay =
          map (\<lambda>p. \<lparr>actionSet = Handle sample_gameplay, subactionPath = p\<rparr>)
            (DeclaredSubactionPaths sample_gameplay)"
    by blast
  then have c: "sync_set [] sample_gameplay =
        [\<lparr>actionSet = 10, subactionPath = 1\<rparr>, \<lparr>actionSet = 10, subactionPath = 2\<rparr>]"
    by (simp add: v2)
  have i: "sync_set [] (SetActive sample_ui False) = []"
    by (simp add: sync_set_def Active_def SetActive_def)
  have d: "fst (SyncActions sample_runtime [] 7 [sample_A, sample_B]) =
        [xrSyncActions 7
           \<lparr>countActiveActionSets = 3,
            activeActionSets =
              [\<lparr>actionSet = 10, subactionPath = 1\<rparr>, \<lparr>actionSet = 10, subactionPath = 2\<rparr>,
               \<lparr>actionSet = 11, subactionPath = 0\<rparr>]\<rparr>]"
    using SyncActions_records_per_set [of "[sample_A, sample_B]" sample_runtime "[]" 7 sample_ui]
    by (simp add: b c sample_A_def sample_B_def)
  have e: "fst (SyncActions sample_runtime [] 7
          [sample_A, sample_B\<lparr>m_actionSets := [SetActive sample_ui False]\<rparr>]) =
        [xrSyncActions 7
           \<lparr>countActiveActionSets = 2,
            activeActionSets =
              [\<lparr>actionSet = 10, subactionPath = 1\<rparr>, \<lparr>actionSet = 10, subactionPath = 2\<rparr>]\<rparr>]"
    using SyncActions_records_per_set [of "[sample_A, sample_B\<lparr>m_actionSets := [SetActive sample_ui False]\<rparr>]"
        sample_runtime "[]" 7 sample_ui]
    by (simp add: c i sample_A_def)
  have f: "fst (SyncActions sample_runtime [] 7
          [sample_B\<lparr>m_actionSets := [sample_inactive]\<rparr>]) = []"
    using SyncActions_records_per_set [of "[sample_B\<lparr>m_actionSets := [sample_inactive]\<rparr>]"
        sample_runtime "[]" 7 sample_ui]
    by (simp add: a)
  show ?thesis using h1 h2 h3 a b c v d e f by blast
qed

text \<open>
  C6. The records of all contexts and sets are accumulated into one flat sequence. When
  it is not empty, \<^verbatim>\<open>SyncActions\<close> issues exactly one \<^verbatim>\<open>xrSyncActions\<close> command: the
  log grows by that one command, whose \<^verbatim>\<open>activeActionSets\<close> is the full sequence and
  whose count is its length as a \<^verbatim>\<open>uint32_t\<close> (\<open>count_exact\<close>: the length itself below
  \<open>2^32\<close>). When it is empty, the log is unchanged: no command is issued.
\<close>

theorem SyncActions_single_call:
  "collect_active ctxs = concat (map (sync_set []) (concat (map m_actionSets ctxs)))
   \<and> (collect_active ctxs \<noteq> [] \<longrightarrow>
        SyncActions rt log session ctxs =
          (log @ [xrSyncActions session
                    \<lparr>countActiveActionSets = of_nat (length (collect_active ctxs)),
                     activeActionSets = collect_active ctxs\<rparr>],
           case rt log (xrSyncActions session
                    \<lparr>countActiveActionSets = of_nat (length (collect_active ctxs)),
                     activeActionSets = collect_active ctxs\<rparr>) of
             Inl r \<Rightarrow> Inl r | Inr h \<Rightarrow> Inr ()))
   \<and> (collect_active ctxs = [] \<longrightarrow> SyncActions rt log session ctxs = (log, Inr ()))"
proof (intro conjI impI)
  show "collect_active ctxs = concat (map (sync_set []) (concat (map m_actionSets ctxs)))"
    by (rule collect_active_concat)
next
  assume "collect_active ctxs \<noteq> []"
  then show "SyncActions rt log session ctxs =
          (log @ [xrSyncActions session
                    \<lparr>countActiveActionSets = of_nat (length (collect_active ctxs)),
                     activeActionSets = collect_active ctxs\<rparr>],
           case rt log (xrSyncActions session
                    \<lparr>countActiveActionSets = of_nat (length (collect_active ctxs)),
                     activeActionSets = collect_active ctxs\<rparr>) of
             Inl r \<Rightarrow> Inl r | Inr h \<Rightarrow> Inr ())"
    by (simp add: SyncActions_unfold sync_call_def)
next
  assume "collect_active ctxs = []"
  then show "SyncActions rt log session ctxs = (log, Inr ())"
    by (simp add: SyncActions_unfold)
qed

theorem SyncActions_single_call_witness:
  "collect_active [sample_A, sample_B] \<noteq> []
   \<and> SyncActions sample_runtime [] 7 [sample_A, sample_B] =
       ([xrSyncActions 7
           \<lparr>countActiveActionSets = 3,
            activeActionSets =
              [\<lparr>actionSet = 10, subactionPath = 1\<rparr>, \<lparr>actionSet = 10, subactionPath = 2\<rparr>,
               \<lparr>actionSet = 11, subactionPath = 0\<rparr>]\<rparr>], Inr ())
   \<and> collect_active [sample_C] = []
   \<and> SyncActions sample_runtime [] 7 [sample_C] = ([], Inr ())"
proof -
  have v: "collect_active [sample_A, sample_B] =
        [\<lparr>actionSet = 10, subactionPath = 1\<rparr>, \<lparr>actionSet = 10, subactionPath = 2\<rparr>,
         \<lparr>actionSet = 11, subactionPath = 0\<rparr>]"
    by (simp add: collect_active_def sync_set_def Active_def DeclaredSubactionPaths_def
        Handle_def XR_NULL_PATH_def sample_A_def sample_B_def sample_gameplay_def sample_ui_def)
  have ne: "collect_active [sample_A, sample_B] \<noteq> []" by (simp add: v)
  have e: "collect_active [sample_C] = []"
    by (simp add: collect_active_def sample_C_def)
  from SyncActions_single_call [of "[sample_A, sample_B]" sample_runtime "[]" 7] ne
  have "SyncActions sample_runtime [] 7 [sample_A, sample_B] =
          ([] @ [xrSyncActions 7
                    \<lparr>countActiveActionSets = of_nat (length (collect_active [sample_A, sample_B])),
                     activeActionSets = collect_active [sample_A, sample_B]\<rparr>],
           case sample_runtime [] (xrSyncActions 7
                    \<lparr>countActiveActionSets = of_nat (length (collect_active [sample_A, sample_B])),
                     activeActionSets = collect_active [sample_A, sample_B]\<rparr>) of
             Inl r \<Rightarrow> Inl r | Inr h \<Rightarrow> Inr ())"
    by blast
  then have a: "SyncActions sample_runtime [] 7 [sample_A, sample_B] =
       ([xrSyncActions 7
           \<lparr>countActiveActionSets = 3,
            activeActionSets =
              [\<lparr>actionSet = 10, subactionPath = 1\<rparr>, \<lparr>actionSet = 10, subactionPath = 2\<rparr>,
               \<lparr>actionSet = 11, subactionPath = 0\<rparr>]\<rparr>], Inr ())"
    by (simp add: v sample_runtime_def)
  from SyncActions_single_call [of "[sample_C]" sample_runtime "[]" 7] e
  have b: "SyncActions sample_runtime [] 7 [sample_C] = ([], Inr ())"
    by blast
  show ?thesis using ne a e b by blast
qed

text \<open>
  C10. \<^verbatim>\<open>SyncActions\<close> is deterministic in the state of the contexts: the commands it
  issues do not depend on the runtime's answers or on the commands issued before, so a
  second call on the same contexts, made after the first and under any runtime, appends
  the same command with the same records in the same order, the order over each set's
  declared sub-action paths included. That order is the order of \<^verbatim>\<open>std::set\<close>, fixed by
  the paths themselves: two sets that were given the same paths, in whatever order and
  how often, yield the same records in the same order.
\<close>

theorem SyncActions_deterministic:
  "fst (SyncActions rt log session ctxs) =
     log @ (if collect_active ctxs = [] then [] else [sync_call session (collect_active ctxs)])
   \<and> fst (SyncActions rt' (fst (SyncActions rt log session ctxs)) session ctxs) =
     fst (SyncActions rt log session ctxs)
       @ (if collect_active ctxs = [] then [] else [sync_call session (collect_active ctxs)])
   \<and> drop (length log) (fst (SyncActions rt log session ctxs)) =
     drop (length log') (fst (SyncActions rt' log' session ctxs))
   \<and> (set ps = set ps' \<longrightarrow>
        sync_set [] (s\<lparr>m_declaredSubactionPaths := foldl set_insert [] ps\<rparr>) =
        sync_set [] (s\<lparr>m_declaredSubactionPaths := foldl set_insert [] ps'\<rparr>))"
proof (intro conjI impI)
  assume "set ps = set ps'"
  then have "foldl set_insert [] ps = foldl set_insert [] ps'"
    by (rule foldl_set_insert_canonical)
  then show "sync_set [] (s\<lparr>m_declaredSubactionPaths := foldl set_insert [] ps\<rparr>) =
        sync_set [] (s\<lparr>m_declaredSubactionPaths := foldl set_insert [] ps'\<rparr>)"
    by simp
qed (simp_all add: SyncActions_unfold)

theorem SyncActions_deterministic_witness:
  "fst (SyncActions sample_runtime [] 7 [sample_A, sample_B]) =
     [sync_call 7 [\<lparr>actionSet = 10, subactionPath = 1\<rparr>, \<lparr>actionSet = 10, subactionPath = 2\<rparr>,
                   \<lparr>actionSet = 11, subactionPath = 0\<rparr>]]
   \<and> fst (SyncActions (\<lambda>l c. Inl 0)
            (fst (SyncActions sample_runtime [] 7 [sample_A, sample_B])) 7 [sample_A, sample_B]) =
     [sync_call 7 [\<lparr>actionSet = 10, subactionPath = 1\<rparr>, \<lparr>actionSet = 10, subactionPath = 2\<rparr>,
                   \<lparr>actionSet = 11, subactionPath = 0\<rparr>],
      sync_call 7 [\<lparr>actionSet = 10, subactionPath = 1\<rparr>, \<lparr>actionSet = 10, subactionPath = 2\<rparr>,
                   \<lparr>actionSet = 11, subactionPath = 0\<rparr>]]
   \<and> set [2, 1, 2 :: XrPath] = set [1, 2]
   \<and> sync_set [] (sample_ui\<lparr>m_declaredSubactionPaths := foldl set_insert [] [2, 1, 2]\<rparr>) =
       sync_set [] (sample_ui\<lparr>m_declaredSubactionPaths := foldl set_insert [] [1, 2]\<rparr>)"
proof -
  have v: "collect_active [sample_A, sample_B] =
        [\<lparr>actionSet = 10, subactionPath = 1\<rparr>, \<lparr>actionSet = 10, subactionPath = 2\<rparr>,
         \<lparr>actionSet = 11, subactionPath = 0\<rparr>]"
    by (simp add: collect_active_def sync_set_def Active_def DeclaredSubactionPaths_def
        Handle_def XR_NULL_PATH_def sample_A_def sample_B_def sample_gameplay_def sample_ui_def)
  let ?recs = "[\<lparr>actionSet = 10, subactionPath = 1\<rparr>, \<lparr>actionSet = 10, subactionPath = 2\<rparr>,
         \<lparr>actionSet = 11, subactionPath = 0 :: XrPath\<rparr>]"
  note T = SyncActions_deterministic [of sample_runtime "[]" 7 "[sample_A, sample_B]"
        "\<lambda>l c. Inl 0" "[]" "[2, 1, 2]" "[1, 2]" sample_ui]
  from T have "fst (SyncActions sample_runtime [] 7 [sample_A, sample_B]) =
     [] @ (if collect_active [sample_A, sample_B] = [] then []
           else [sync_call 7 (collect_active [sample_A, sample_B])])"
    by blast
  then have a: "fst (SyncActions sample_runtime [] 7 [sample_A, sample_B]) = [sync_call 7 ?recs]"
    by (simp add: v)
  from T have "fst (SyncActions (\<lambda>l c. Inl 0)
            (fst (SyncActions sample_runtime [] 7 [sample_A, sample_B])) 7 [sample_A, sample_B]) =
     fst (SyncActions sample_runtime [] 7 [sample_A, sample_B])
       @ (if collect_active [sample_A, sample_B] = [] then []
          else [sync_call 7 (collect_active [sample_A, sample_B])])"
    by blast
  then have b: "fst (SyncActions (\<lambda>l c. Inl 0)
            (fst (SyncActions sample_runtime [] 7 [sample_A, sample_B])) 7 [sample_A, sample_B]) =
     [sync_call 7 ?recs, sync_call 7 ?recs]"
    by (simp add: v a)
  have hs: "set [2, 1, 2 :: XrPath] = set [1, 2]" by auto
  from T hs have c:
    "sync_set [] (sample_ui\<lparr>m_declaredSubactionPaths := foldl set_insert [] [2, 1, 2]\<rparr>) =
     sync_set [] (sample_ui\<lparr>m_declaredSubactionPaths := foldl set_insert [] [1, 2]\<rparr>)"
    by blast
  show ?thesis using a b hs c by blast
qed

end
